theory Spec2Isabelle
  imports Complex_Main
begin

section \<open>Image planes\<close>

text \<open>
  An \<open>IPLImagePlane\<close> is a width, a height and a row-major buffer of float pixels;
  \<open>p(x,y)\<close> is a reference to buffer cell \<open>y * width + x\<close>.  The pixel values that the
  morphology code compares and writes are only 0 and 1, which are exact, so pixels are
  modelled as reals.  An access outside the buffer is undefined behaviour in C++; the model
  returns \<open>None\<close> for it, and \<open>None\<close> propagates through every caller.
\<close>

record plane =
  width :: nat
  height :: nat
  pixels :: "real list"

definition p_read :: "plane \<Rightarrow> int \<Rightarrow> int \<Rightarrow> real option" where
  "p_read P x y =
     (let j = y * int (width P) + x
      in if 0 \<le> j \<and> nat j < length (pixels P) then Some (pixels P ! nat j) else None)"

definition p_write :: "plane \<Rightarrow> int \<Rightarrow> int \<Rightarrow> real \<Rightarrow> plane option" where
  "p_write P x y v =
     (let j = y * int (width P) + x
      in if 0 \<le> j \<and> nat j < length (pixels P)
         then Some (P\<lparr>pixels := (pixels P)[nat j := v]\<rparr>) else None)"

text \<open>The class invariant of a plane: the buffer holds exactly \<open>width * height\<close> pixels.\<close>

definition wf_plane :: "plane \<Rightarrow> bool" where
  "wf_plane P \<longleftrightarrow> length (pixels P) = width P * height P"

definition same_dims :: "plane \<Rightarrow> plane \<Rightarrow> bool" where
  "same_dims P Q \<longleftrightarrow> width P = width Q \<and> height P = height Q"

section \<open>The structuring element\<close>

text \<open>
  \<open>(int)sqrt((float)kernel.size())\<close>: the integer part of the square root, computed
  without reals so that it can be evaluated.  The code first converts the size to float,
  which is exact for every size up to \<open>2\<^sup>2\<^sup>4\<close> = 16777216; for those sizes \<open>kernelOffset\<close>
  is the value the code computes.  A statement that depends on the value of
  \<open>kernelOffset\<close> for a kernel given by the host carries that bound.
\<close>

fun isqrt :: "nat \<Rightarrow> nat" where
  "isqrt 0 = 0"
| "isqrt (Suc n) = (let r = isqrt n in if (r + 1) * (r + 1) \<le> Suc n then r + 1 else r)"

definition kernelOffset :: "bool list \<Rightarrow> int" where
  "kernelOffset ker = int (isqrt (length ker) div 2)"

section \<open>applyMorphology\<close>

text \<open>
  The innermost loop over \<open>kx\<close>, for one kernel row \<open>ky\<close>.  The loop state is the flag
  \<open>cancel\<close> and the running kernel index \<open>i\<close>.  A neighbour outside the raster takes the
  \<open>continue\<close> branch, which leaves \<open>i\<close> as it is; an in-bounds neighbour reads the pixel and
  then \<open>kernel[i++]\<close>.  The loop condition \<open>!cancel\<close> ends the loop as soon as \<open>cancel\<close> is
  set.  Reading \<open>kernel[i]\<close> beyond the vector is undefined behaviour (\<open>None\<close>).
\<close>

fun kx_loop ::
  "real \<Rightarrow> bool list \<Rightarrow> plane \<Rightarrow> int \<Rightarrow> int \<Rightarrow> int \<Rightarrow> int list \<Rightarrow> nat \<Rightarrow> (bool \<times> nat) option"
where
  "kx_loop T ker src x y ky [] i = Some (False, i)"
| "kx_loop T ker src x y ky (kx # kxs) i =
     (if x + kx < 0 \<or> x + kx \<ge> int (width src) \<or> y + ky < 0 \<or> y + ky \<ge> int (height src)
      then kx_loop T ker src x y ky kxs i
      else (case p_read src (x + kx) (y + ky) of
              None \<Rightarrow> None
            | Some p \<Rightarrow>
                if i < length ker
                then (let mask = ker ! i;
                          pixel = (p = T);
                          cancel = (mask \<and> pixel)
                      in if cancel then Some (True, i + 1)
                         else kx_loop T ker src x y ky kxs (i + 1))
                else None))"

text \<open>The loop over \<open>ky\<close>; each round runs the \<open>kx\<close> loop from \<open>-kernelOffset\<close> to \<open>kernelOffset\<close>.\<close>

fun ky_loop ::
  "real \<Rightarrow> bool list \<Rightarrow> plane \<Rightarrow> int \<Rightarrow> int \<Rightarrow> int \<Rightarrow> int list \<Rightarrow> nat \<Rightarrow> (bool \<times> nat) option"
where
  "ky_loop T ker src x y off [] i = Some (False, i)"
| "ky_loop T ker src x y off (ky # kys) i =
     (case kx_loop T ker src x y ky [- off .. off] i of
        None \<Rightarrow> None
      | Some (cancel, i') \<Rightarrow>
          if cancel then Some (True, i') else ky_loop T ker src x y off kys i')"

text \<open>The value written to \<open>dst.p(x,y)\<close>: \<open>cancel ? T : F\<close>, after the scan started at \<open>i = 0\<close>.\<close>

definition pixel_value ::
  "real \<Rightarrow> real \<Rightarrow> bool list \<Rightarrow> plane \<Rightarrow> int \<Rightarrow> int \<Rightarrow> real option" where
  "pixel_value T F ker src x y =
     (let off = kernelOffset ker
      in case ky_loop T ker src x y off [- off .. off] 0 of
           None \<Rightarrow> None
         | Some (cancel, i) \<Rightarrow> Some (if cancel then T else F))"

text \<open>The loop over \<open>x\<close> of one row \<open>y\<close>, writing the destination plane.\<close>

fun x_loop ::
  "real \<Rightarrow> real \<Rightarrow> bool list \<Rightarrow> plane \<Rightarrow> plane \<Rightarrow> nat \<Rightarrow> nat list \<Rightarrow> plane option" where
  "x_loop T F ker src dst y [] = Some dst"
| "x_loop T F ker src dst y (x # xs) =
     (case pixel_value T F ker src (int x) (int y) of
        None \<Rightarrow> None
      | Some v \<Rightarrow>
          (case p_write dst (int x) (int y) v of
             None \<Rightarrow> None
           | Some dst' \<Rightarrow> x_loop T F ker src dst' y xs))"

text \<open>
  The loop over the rows, in row order; \<open>progressCallback()\<close> runs after each row.  The
  callback is a parameter of the template; here it is a transformer \<open>cb\<close> of a state \<open>s\<close>.
  The loop carries an OpenMP directive.  A row reads only \<open>src\<close> and writes only its own
  row of \<open>dst\<close>, so the plane produced does not depend on the schedule; the order in
  which the callback runs does, and the model takes the order of the loop as written.
\<close>

fun y_loop ::
  "real \<Rightarrow> real \<Rightarrow> bool list \<Rightarrow> ('s \<Rightarrow> 's) \<Rightarrow> plane \<Rightarrow> plane \<Rightarrow> nat list \<Rightarrow> 's
     \<Rightarrow> (plane \<times> 's) option" where
  "y_loop T F ker cb src dst [] s = Some (dst, s)"
| "y_loop T F ker cb src dst (y # ys) s =
     (case x_loop T F ker src dst y [0 ..< width src] of
        None \<Rightarrow> None
      | Some dst' \<Rightarrow> y_loop T F ker cb src dst' ys (cb s))"

text \<open>
  The loop over the iterations.  Each round scans all rows and then runs
  \<open>std::swap(src,dst)\<close>, so the next round is entered with the two planes exchanged.
\<close>

fun iteration_loop ::
  "real \<Rightarrow> real \<Rightarrow> bool list \<Rightarrow> ('s \<Rightarrow> 's) \<Rightarrow> nat \<Rightarrow> plane \<Rightarrow> plane \<Rightarrow> 's
     \<Rightarrow> (plane \<times> plane \<times> 's) option" where
  "iteration_loop T F ker cb 0 src dst s = Some (src, dst, s)"
| "iteration_loop T F ker cb (Suc n) src dst s =
     (case y_loop T F ker cb src dst [0 ..< height src] s of
        None \<Rightarrow> None
      | Some (dst', s') \<Rightarrow> iteration_loop T F ker cb n dst' src s')"

text \<open>
  \<open>applyMorphology<T,F>(src, dst, iterations, kernel, progressCallback)\<close>.  Both planes
  are passed by reference; the result is the pair (src, dst) as the caller sees it on
  return, after the last \<open>std::swap(src,dst)\<close> that follows the loop, with the callback's
  state.  The loop \<open>for (i = 0; i < iterations; ++i)\<close> runs \<open>nat iterations\<close> rounds.
\<close>

definition applyMorphology ::
  "real \<Rightarrow> real \<Rightarrow> plane \<Rightarrow> plane \<Rightarrow> int \<Rightarrow> bool list \<Rightarrow> ('s \<Rightarrow> 's) \<Rightarrow> 's
     \<Rightarrow> (plane \<times> plane \<times> 's) option" where
  "applyMorphology T F src dst iterations ker cb s =
     (case iteration_loop T F ker cb (nat iterations) src dst s of
        None \<Rightarrow> None
      | Some (src', dst', s') \<Rightarrow> Some (dst', src', s'))"

section \<open>The four operators\<close>

text \<open>
  Each operator takes the source by const reference and copies it into the local
  \<open>input\<close>; the result is the destination plane as the caller sees it on return.
\<close>

definition dilate ::
  "plane \<Rightarrow> plane \<Rightarrow> int \<Rightarrow> bool list \<Rightarrow> ('s \<Rightarrow> 's) \<Rightarrow> 's \<Rightarrow> (plane \<times> 's) option" where
  "dilate src dst iterations ker cb s =
     (let input = src
      in case applyMorphology 1 0 input dst iterations ker cb s of
           None \<Rightarrow> None
         | Some (input', dst', s') \<Rightarrow> Some (dst', s'))"

definition erode ::
  "plane \<Rightarrow> plane \<Rightarrow> int \<Rightarrow> bool list \<Rightarrow> ('s \<Rightarrow> 's) \<Rightarrow> 's \<Rightarrow> (plane \<times> 's) option" where
  "erode src dst iterations ker cb s =
     (let input = src
      in case applyMorphology 0 1 input dst iterations ker cb s of
           None \<Rightarrow> None
         | Some (input', dst', s') \<Rightarrow> Some (dst', s'))"

text \<open>\<open>open\<close>: erode, \<open>std::swap(input,dst)\<close>, dilate.\<close>

definition open_morph ::
  "plane \<Rightarrow> plane \<Rightarrow> int \<Rightarrow> bool list \<Rightarrow> ('s \<Rightarrow> 's) \<Rightarrow> 's \<Rightarrow> (plane \<times> 's) option" where
  "open_morph src dst iterations ker cb s =
     (let input = src
      in case erode input dst iterations ker cb s of
           None \<Rightarrow> None
         | Some (dst1, s1) \<Rightarrow>
             (let input2 = dst1; dst2 = input
              in dilate input2 dst2 iterations ker cb s1))"

text \<open>\<open>close\<close>: dilate, \<open>std::swap(input,dst)\<close>, erode.\<close>

definition close_morph ::
  "plane \<Rightarrow> plane \<Rightarrow> int \<Rightarrow> bool list \<Rightarrow> ('s \<Rightarrow> 's) \<Rightarrow> 's \<Rightarrow> (plane \<times> 's) option" where
  "close_morph src dst iterations ker cb s =
     (let input = src
      in case dilate input dst iterations ker cb s of
           None \<Rightarrow> None
         | Some (dst1, s1) \<Rightarrow>
             (let input2 = dst1; dst2 = input
              in erode input2 dst2 iterations ker cb s1))"

section \<open>The operators on references\<close>

text \<open>
  \<open>applyMorphology\<close> receives \<open>IPLImagePlane &src\<close> and \<open>IPLImagePlane &dst\<close>, and the
  operators \<open>const IPLImagePlane &src\<close> and \<open>IPLImagePlane &dst\<close>: references to objects,
  which may be the same object.  A heap is the list of the live plane objects; a
  reference is an index into it.  A local \<open>IPLImagePlane\<close> is a new object at the end of the
  heap, removed again when its function returns.
\<close>

type_synonym heap = "plane list"

text \<open>\<open>std::swap(a, b)\<close> on two plane objects exchanges what they hold.\<close>

definition swap_objects :: "nat \<Rightarrow> nat \<Rightarrow> heap \<Rightarrow> heap" where
  "swap_objects a b hp = hp[a := hp ! b, b := hp ! a]"

text \<open>
  The loops of \<open>applyMorphology\<close> on references: every read goes to the object \<open>src\<close>
  refers to at that moment and every write to the object \<open>dst\<close> refers to.
\<close>

fun x_loop_ref ::
  "real \<Rightarrow> real \<Rightarrow> bool list \<Rightarrow> nat \<Rightarrow> nat \<Rightarrow> nat \<Rightarrow> nat list \<Rightarrow> heap \<Rightarrow> heap option" where
  "x_loop_ref T F ker src_ref dst_ref y [] hp = Some hp"
| "x_loop_ref T F ker src_ref dst_ref y (x # xs) hp =
     (case pixel_value T F ker (hp ! src_ref) (int x) (int y) of
        None \<Rightarrow> None
      | Some v \<Rightarrow>
          (case p_write (hp ! dst_ref) (int x) (int y) v of
             None \<Rightarrow> None
           | Some dst' \<Rightarrow> x_loop_ref T F ker src_ref dst_ref y xs (hp[dst_ref := dst'])))"

fun y_loop_ref ::
  "real \<Rightarrow> real \<Rightarrow> bool list \<Rightarrow> ('s \<Rightarrow> 's) \<Rightarrow> nat \<Rightarrow> nat \<Rightarrow> nat list \<Rightarrow> heap \<Rightarrow> 's
     \<Rightarrow> (heap \<times> 's) option" where
  "y_loop_ref T F ker cb src_ref dst_ref [] hp s = Some (hp, s)"
| "y_loop_ref T F ker cb src_ref dst_ref (y # ys) hp s =
     (case x_loop_ref T F ker src_ref dst_ref y [0 ..< width (hp ! src_ref)] hp of
        None \<Rightarrow> None
      | Some hp' \<Rightarrow> y_loop_ref T F ker cb src_ref dst_ref ys hp' (cb s))"

fun iteration_loop_ref ::
  "real \<Rightarrow> real \<Rightarrow> bool list \<Rightarrow> ('s \<Rightarrow> 's) \<Rightarrow> nat \<Rightarrow> nat \<Rightarrow> nat \<Rightarrow> heap \<Rightarrow> 's
     \<Rightarrow> (heap \<times> 's) option" where
  "iteration_loop_ref T F ker cb src_ref dst_ref 0 hp s = Some (hp, s)"
| "iteration_loop_ref T F ker cb src_ref dst_ref (Suc n) hp s =
     (case y_loop_ref T F ker cb src_ref dst_ref [0 ..< height (hp ! src_ref)] hp s of
        None \<Rightarrow> None
      | Some (hp', s') \<Rightarrow>
          iteration_loop_ref T F ker cb src_ref dst_ref n (swap_objects src_ref dst_ref hp') s')"

text \<open>
  \<open>applyMorphology\<close> on references.  It writes the object \<open>dst\<close> refers to and, through
  the swaps, also the object \<open>src\<close> refers to.
\<close>

definition applyMorphology_ref ::
  "real \<Rightarrow> real \<Rightarrow> nat \<Rightarrow> nat \<Rightarrow> int \<Rightarrow> bool list \<Rightarrow> ('s \<Rightarrow> 's) \<Rightarrow> heap \<Rightarrow> 's
     \<Rightarrow> (heap \<times> 's) option" where
  "applyMorphology_ref T F src_ref dst_ref iterations ker cb hp s =
     (if src_ref < length hp \<and> dst_ref < length hp
      then (case iteration_loop_ref T F ker cb src_ref dst_ref (nat iterations) hp s of
              None \<Rightarrow> None
            | Some (hp', s') \<Rightarrow> Some (swap_objects src_ref dst_ref hp', s'))
      else None)"

text \<open>
  \<open>dilate\<close> and \<open>erode\<close> on references: \<open>IPLImagePlane input(src)\<close> creates the local
  object \<open>input\<close> as a copy of the source object, \<open>applyMorphology\<close> runs on \<open>input\<close> and
  \<open>dst\<close>, and \<open>input\<close> is destroyed on return.
\<close>

definition dilate_ref ::
  "nat \<Rightarrow> nat \<Rightarrow> int \<Rightarrow> bool list \<Rightarrow> ('s \<Rightarrow> 's) \<Rightarrow> heap \<Rightarrow> 's \<Rightarrow> (heap \<times> 's) option" where
  "dilate_ref src_ref dst_ref iterations ker cb hp s =
     (if src_ref < length hp \<and> dst_ref < length hp
      then (let input_ref = length hp;
                hp1 = hp @ [hp ! src_ref]
            in case applyMorphology_ref 1 0 input_ref dst_ref iterations ker cb hp1 s of
                 None \<Rightarrow> None
               | Some (hp2, s') \<Rightarrow> Some (butlast hp2, s'))
      else None)"

definition erode_ref ::
  "nat \<Rightarrow> nat \<Rightarrow> int \<Rightarrow> bool list \<Rightarrow> ('s \<Rightarrow> 's) \<Rightarrow> heap \<Rightarrow> 's \<Rightarrow> (heap \<times> 's) option" where
  "erode_ref src_ref dst_ref iterations ker cb hp s =
     (if src_ref < length hp \<and> dst_ref < length hp
      then (let input_ref = length hp;
                hp1 = hp @ [hp ! src_ref]
            in case applyMorphology_ref 0 1 input_ref dst_ref iterations ker cb hp1 s of
                 None \<Rightarrow> None
               | Some (hp2, s') \<Rightarrow> Some (butlast hp2, s'))
      else None)"

text \<open>
  \<open>open\<close> and \<open>close\<close> on references: the local copy \<open>input\<close>, the first operator on
  \<open>input\<close> and \<open>dst\<close>, \<open>std::swap(input,dst)\<close>, the second operator on \<open>input\<close> and \<open>dst\<close>.
\<close>

definition open_ref ::
  "nat \<Rightarrow> nat \<Rightarrow> int \<Rightarrow> bool list \<Rightarrow> ('s \<Rightarrow> 's) \<Rightarrow> heap \<Rightarrow> 's \<Rightarrow> (heap \<times> 's) option" where
  "open_ref src_ref dst_ref iterations ker cb hp s =
     (if src_ref < length hp \<and> dst_ref < length hp
      then (let input_ref = length hp;
                hp1 = hp @ [hp ! src_ref]
            in case erode_ref input_ref dst_ref iterations ker cb hp1 s of
                 None \<Rightarrow> None
               | Some (hp2, s1) \<Rightarrow>
                   (case dilate_ref input_ref dst_ref iterations ker cb
                           (swap_objects input_ref dst_ref hp2) s1 of
                      None \<Rightarrow> None
                    | Some (hp3, s2) \<Rightarrow> Some (butlast hp3, s2)))
      else None)"

definition close_ref ::
  "nat \<Rightarrow> nat \<Rightarrow> int \<Rightarrow> bool list \<Rightarrow> ('s \<Rightarrow> 's) \<Rightarrow> heap \<Rightarrow> 's \<Rightarrow> (heap \<times> 's) option" where
  "close_ref src_ref dst_ref iterations ker cb hp s =
     (if src_ref < length hp \<and> dst_ref < length hp
      then (let input_ref = length hp;
                hp1 = hp @ [hp ! src_ref]
            in case dilate_ref input_ref dst_ref iterations ker cb hp1 s of
                 None \<Rightarrow> None
               | Some (hp2, s1) \<Rightarrow>
                   (case erode_ref input_ref dst_ref iterations ker cb
                           (swap_objects input_ref dst_ref hp2) s1 of
                      None \<Rightarrow> None
                    | Some (hp3, s2) \<Rightarrow> Some (butlast hp3, s2)))
      else None)"

section \<open>processInputData\<close>

text \<open>
  The members of \<open>IPLMorphologyBinary\<close> that \<open>processInputData\<close> touches, and the
  progress sink: the list of the values passed to \<open>notifyProgressEventHandler\<close>, oldest
  first.
\<close>

record process =
  m_result :: "plane option"
  m_kernel :: "int list"
  m_iterations :: int
  m_operation :: int
  sink :: "real list"

text \<open>
  The lambda \<open>updateProgress\<close>: it increments the counter \<open>progress\<close> and reports
  \<open>100*((float)++progress)/totalLines\<close>.  Its state is the counter and the sink.  Float
  arithmetic is not modelled: the value of that expression for a counter value and a
  total is the parameter \<open>fraction\<close>.  The counter is a \<open>std::atomic<int>\<close> because the rows
  of a scan may run in parallel; the sink below lists the reports in the order of the
  row loop as written, which is one of the orders a parallel run can produce.  What is
  proved about \<open>processInputData\<close> is its result and the sink of an invocation that
  reports nothing.
\<close>

definition updateProgress ::
  "(int \<Rightarrow> int \<Rightarrow> real) \<Rightarrow> int \<Rightarrow> int \<times> real list \<Rightarrow> int \<times> real list" where
  "updateProgress fraction totalLines =
     (\<lambda>(progress, reports). (progress + 1, reports @ [fraction (progress + 1) totalLines]))"

text \<open>The range of a C++ \<open>int\<close>; a signed product outside it is undefined behaviour.\<close>

definition int_range :: "int \<Rightarrow> bool" where
  "int_range v \<longleftrightarrow> - 2147483648 \<le> v \<and> v \<le> 2147483647"

text \<open>
  \<open>processInputData(image, ...)\<close>.  \<open>img\<close> is plane 0 of the input \<open>image\<close>.  The
  constructor of \<open>IPLImage\<close> is not part of the sources at hand, so the plane of the newly
  allocated result image is the parameter \<open>new_plane width height\<close>.  The three property
  getters are the parameters \<open>prop_kernel\<close>, \<open>prop_iterations\<close> and \<open>prop_operation\<close>.
  \<open>fraction\<close> is the float expression of \<open>updateProgress\<close>.
  The \<open>switch\<close> has the cases 0 to 3 and no default; the function returns \<open>true\<close>.
\<close>

definition processInputData ::
  "(nat \<Rightarrow> nat \<Rightarrow> plane) \<Rightarrow> (int \<Rightarrow> int \<Rightarrow> real) \<Rightarrow> plane \<Rightarrow> int list \<Rightarrow> int \<Rightarrow> int
     \<Rightarrow> process \<Rightarrow> (bool \<times> process) option" where
  "processInputData new_plane fraction img prop_kernel prop_iterations prop_operation st =
     (let w = width img;
          h = height img;
          result = new_plane w h;
          st1 = st\<lparr>m_result := Some result, m_kernel := prop_kernel,
                   m_iterations := prop_iterations, m_operation := prop_operation\<rparr>;
          ker = map (\<lambda>i. i > 0) prop_kernel;
          progress = 0;
          totalLines = int h * prop_iterations;
          finish = (\<lambda>r. case r of
                       None \<Rightarrow> None
                     | Some (dst', (progress', sink')) \<Rightarrow>
                         Some (True, st1\<lparr>m_result := Some dst', sink := sink'\<rparr>))
      in if \<not> int_range totalLines then None
         else if prop_operation = 0 then
           finish (dilate img result prop_iterations ker
                     (updateProgress fraction totalLines) (progress, sink st1))
         else if prop_operation = 1 then
           finish (erode img result prop_iterations ker
                     (updateProgress fraction totalLines) (progress, sink st1))
         else if prop_operation = 2 then
           (if \<not> int_range (totalLines * 2) then None
            else finish (open_morph img result prop_iterations ker
                           (updateProgress fraction (totalLines * 2)) (progress, sink st1)))
         else if prop_operation = 3 then
           (if \<not> int_range (totalLines * 2) then None
            else finish (close_morph img result prop_iterations ker
                           (updateProgress fraction (totalLines * 2)) (progress, sink st1)))
         else Some (True, st1))"

section \<open>Generations\<close>

text \<open>
  The plane that one full scan of a source plane defines: same dimensions, and at every
  coordinate the value that the scan computes there.  It is undefined when the scan of
  some pixel is.
\<close>

definition generation :: "real \<Rightarrow> real \<Rightarrow> bool list \<Rightarrow> plane \<Rightarrow> plane option" where
  "generation T F ker src =
     (if \<forall>y < height src. \<forall>x < width src. pixel_value T F ker src (int x) (int y) \<noteq> None
      then Some \<lparr>width = width src, height = height src,
                 pixels = map (\<lambda>j. the (pixel_value T F ker src
                                          (int (j mod width src)) (int (j div width src))))
                              [0 ..< width src * height src]\<rparr>
      else None)"

text \<open>The \<open>n\<close>-th generation: \<open>n\<close> scans, each of the plane the one before produced.\<close>

fun generations :: "real \<Rightarrow> real \<Rightarrow> bool list \<Rightarrow> nat \<Rightarrow> plane \<Rightarrow> plane option" where
  "generations T F ker 0 X = Some X"
| "generations T F ker (Suc n) X =
     (case generation T F ker X of None \<Rightarrow> None | Some Y \<Rightarrow> generations T F ker n Y)"

text \<open>Pixel-wise negation of a plane: it exchanges the two sentinels 0 and 1.\<close>

definition negate :: "plane \<Rightarrow> plane" where
  "negate P = P\<lparr>pixels := map (\<lambda>v. 1 - v) (pixels P)\<rparr>"

section \<open>Auxiliary notions\<close>

text \<open>A coordinate is in bounds when it passes the bounds check of the scan.\<close>

definition inb :: "plane \<Rightarrow> int \<Rightarrow> int \<Rightarrow> bool" where
  "inb P x y \<longleftrightarrow> 0 \<le> x \<and> x < int (width P) \<and> 0 \<le> y \<and> y < int (height P)"

text \<open>A structuring element is all-active when every flag is set.\<close>

definition all_active :: "bool list \<Rightarrow> bool" where
  "all_active ker \<longleftrightarrow> list_all (\<lambda>b. b) ker"

text \<open>
  The scanned window of \<open>(2 * kernelOffset + 1)\<^sup>2\<close> cells has no more cells than the
  kernel has flags; then no scan reads past the end of the kernel.  Every kernel whose
  length is an odd square has this property.
\<close>

definition window_fits :: "bool list \<Rightarrow> bool" where
  "window_fits ker \<longleftrightarrow>
     nat (2 * kernelOffset ker + 1) * nat (2 * kernelOffset ker + 1) \<le> length ker"

text \<open>
  A pixel is hit for the sentinel \<open>T\<close> when some cell of the window around it is in
  bounds and holds \<open>T\<close>.
\<close>

definition hit :: "plane \<Rightarrow> int \<Rightarrow> real \<Rightarrow> int \<Rightarrow> int \<Rightarrow> bool" where
  "hit P off T x y \<longleftrightarrow>
     (\<exists>ky\<in>set [- off .. off]. \<exists>kx\<in>set [- off .. off].
        inb P (x + kx) (y + ky) \<and> p_read P (x + kx) (y + ky) = Some T)"

section \<open>Concrete planes, kernels and states\<close>

text \<open>
  The 5x5 rasters of the scenarios: a single foreground pixel at (2,2), the 3x3 block
  around it, the all-foreground and the all-background raster, and a destination buffer
  holding stale values.
\<close>

definition speck5 :: plane where
  "speck5 = \<lparr>width = 5, height = 5, pixels = replicate 12 0 @ 1 # replicate 12 0\<rparr>"

definition block5 :: plane where
  "block5 = \<lparr>width = 5, height = 5,
             pixels = [0,0,0,0,0, 0,1,1,1,0, 0,1,1,1,0, 0,1,1,1,0, 0,0,0,0,0]\<rparr>"

definition full5 :: plane where
  "full5 = \<lparr>width = 5, height = 5, pixels = replicate 25 1\<rparr>"

definition blank5 :: plane where
  "blank5 = \<lparr>width = 5, height = 5, pixels = replicate 25 0\<rparr>"

definition stale5 :: plane where
  "stale5 = \<lparr>width = 5, height = 5, pixels = replicate 25 7\<rparr>"

text \<open>A heap with the speck raster at address 0 and the stale buffer at address 1.\<close>

definition heap5 :: heap where
  "heap5 = [speck5, stale5]"

text \<open>The 3x3 all-active structuring element.\<close>

definition kernel3x3 :: "bool list" where
  "kernel3x3 = [True, True, True, True, True, True, True, True, True]"

text \<open>
  2x2 rasters: all foreground, all background, only pixel (0,0) foreground, and a stale
  destination buffer.
\<close>

definition ones2 :: plane where
  "ones2 = \<lparr>width = 2, height = 2, pixels = [1, 1, 1, 1]\<rparr>"

definition zeros2 :: plane where
  "zeros2 = \<lparr>width = 2, height = 2, pixels = [0, 0, 0, 0]\<rparr>"

definition corner2 :: plane where
  "corner2 = \<lparr>width = 2, height = 2, pixels = [1, 0, 0, 0]\<rparr>"

definition stale2 :: plane where
  "stale2 = \<lparr>width = 2, height = 2, pixels = [7, 7, 7, 7]\<rparr>"

text \<open>
  The 3x3 kernel whose only active cell is the centre (flat index 4): the default kernel
  that \<open>init\<close> installs.
\<close>

definition centre3x3 :: "bool list" where
  "centre3x3 = [False, False, False, False, True, False, False, False, False]"

text \<open>The 3x3 kernel whose only active cell is flat index 0, the cell at offset (-1,-1).\<close>

definition topleft3x3 :: "bool list" where
  "topleft3x3 = [True, False, False, False, False, False, False, False, False]"

text \<open>
  A value for the parameter \<open>fraction\<close> in the concrete runs: the exact quotient.  The
  runs below have a total of 2 or 4 lines, where every quotient \<open>100 * k / total\<close> is a
  float, so the float expression has this value.
\<close>

definition exact_fraction :: "int \<Rightarrow> int \<Rightarrow> real" where
  "exact_fraction progress totalLines = 100 * real_of_int progress / real_of_int totalLines"

text \<open>
  Values of the kernel property: the default centre-only 3x3 kernel, and a kernel of
  length 2, which is not a square.
\<close>

definition centre_prop :: "int list" where
  "centre_prop = [0, 0, 0, 0, 1, 0, 0, 0, 0]"

definition pair_prop :: "int list" where
  "pair_prop = [1, 1]"

text \<open>An allocator that fills the new plane with background, for the concrete runs.\<close>

definition blank_plane :: "nat \<Rightarrow> nat \<Rightarrow> plane" where
  "blank_plane w h = \<lparr>width = w, height = h, pixels = replicate (w * h) 0\<rparr>"

text \<open>A process state before its first invocation.\<close>

definition idle :: process where
  "idle = \<lparr>m_result = None, m_kernel = [], m_iterations = 1, m_operation = 0, sink = []\<rparr>"

text \<open>
  3x3 rasters: a single foreground pixel at (2,2), the all-background raster, a stale
  destination buffer, and the planes that the scans below produce from them.
\<close>

definition spot3 :: plane where
  "spot3 = \<lparr>width = 3, height = 3, pixels = [0, 0, 0, 0, 0, 0, 0, 0, 1]\<rparr>"

definition zeros3 :: plane where
  "zeros3 = \<lparr>width = 3, height = 3, pixels = replicate 9 0\<rparr>"

definition stale3 :: plane where
  "stale3 = \<lparr>width = 3, height = 3, pixels = replicate 9 7\<rparr>"

definition eroded3 :: plane where
  "eroded3 = \<lparr>width = 3, height = 3, pixels = [1, 0, 1, 0, 0, 1, 1, 1, 1]\<rparr>"

definition opened3 :: plane where
  "opened3 = \<lparr>width = 3, height = 3, pixels = [0, 1, 0, 1, 1, 1, 0, 1, 0]\<rparr>"

definition holes3 :: plane where
  "holes3 = \<lparr>width = 3, height = 3, pixels = [1, 1, 1, 1, 1, 0, 1, 0, 1]\<rparr>"

definition reopened3 :: plane where
  "reopened3 = \<lparr>width = 3, height = 3, pixels = [0, 0, 0, 0, 0, 1, 0, 1, 0]\<rparr>"

definition closed3 :: plane where
  "closed3 = \<lparr>width = 3, height = 3, pixels = [1, 0, 1, 0, 0, 0, 1, 0, 1]\<rparr>"

text \<open>The 3x3 kernel whose only active cell is flat index 5, the cell at offset (0,+1).\<close>

definition right3x3 :: "bool list" where
  "right3x3 = [False, False, False, False, False, True, False, False, False]"

section \<open>One scan computes a generation\<close>

lemma p_write_Some:
  "p_write P (int x) (int y) v = Some P' \<longleftrightarrow>
     (y * width P + x < length (pixels P) \<and> P' = P\<lparr>pixels := (pixels P)[y * width P + x := v]\<rparr>)"
  by (auto simp: p_write_def Let_def nat_add_distrib nat_mult_distrib)

lemma x_loop_Some:
  "x_loop T F ker src dst y xs = Some dst' \<Longrightarrow>
     width dst' = width dst \<and> height dst' = height dst \<and>
     length (pixels dst') = length (pixels dst) \<and>
     (\<forall>x\<in>set xs. pixel_value T F ker src (int x) (int y) \<noteq> None) \<and>
     (\<forall>j < length (pixels dst). pixels dst' ! j =
        (if \<exists>x\<in>set xs. j = y * width dst + x
         then the (pixel_value T F ker src (int (j - y * width dst)) (int y))
         else pixels dst ! j))"
proof (induction xs arbitrary: dst)
  case Nil
  then show ?case by simp
next
  case (Cons x xs)
  from Cons.prems obtain v d1 where
    v: "pixel_value T F ker src (int x) (int y) = Some v" and
    w: "p_write dst (int x) (int y) v = Some d1" and
    r: "x_loop T F ker src d1 y xs = Some dst'"
    by (auto split: option.splits)
  from w have d1: "y * width dst + x < length (pixels dst)"
    "d1 = dst\<lparr>pixels := (pixels dst)[y * width dst + x := v]\<rparr>"
    by (simp_all add: p_write_Some)
  note ih = Cons.IH [OF r]
  show ?case
    using ih v d1 by (auto simp: nth_list_update)
qed

lemma x_loop_total:
  "\<forall>x\<in>set xs. pixel_value T F ker src (int x) (int y) \<noteq> None \<Longrightarrow>
   \<forall>x\<in>set xs. y * width dst + x < length (pixels dst) \<Longrightarrow>
   \<exists>dst'. x_loop T F ker src dst y xs = Some dst'"
proof (induction xs arbitrary: dst)
  case Nil
  then show ?case by simp
next
  case (Cons x xs)
  then obtain v where v: "pixel_value T F ker src (int x) (int y) = Some v" by auto
  let ?d1 = "dst\<lparr>pixels := (pixels dst)[y * width dst + x := v]\<rparr>"
  have w: "p_write dst (int x) (int y) v = Some ?d1"
    using Cons.prems by (simp add: p_write_Some)
  have "\<exists>dst'. x_loop T F ker src ?d1 y xs = Some dst'"
    using Cons.prems by (intro Cons.IH) auto
  then show ?case using v w by simp
qed

lemma x_loop_None:
  "x \<in> set xs \<Longrightarrow> pixel_value T F ker src (int x) (int y) = None \<Longrightarrow>
   x_loop T F ker src dst y xs = None"
  by (induction xs arbitrary: dst) (auto split: option.splits)


lemma y_loop_Some:
  "y_loop T F ker cb src dst ys s = Some (dst', s') \<Longrightarrow> width dst = width src \<Longrightarrow>
     width dst' = width dst \<and> height dst' = height dst \<and>
     length (pixels dst') = length (pixels dst) \<and>
     s' = (cb ^^ length ys) s \<and>
     (\<forall>y\<in>set ys. \<forall>x < width src. pixel_value T F ker src (int x) (int y) \<noteq> None) \<and>
     (\<forall>j < length (pixels dst). pixels dst' ! j =
        (if j div width src \<in> set ys \<and> 0 < width src
         then the (pixel_value T F ker src (int (j mod width src)) (int (j div width src)))
         else pixels dst ! j))"
proof (induction ys arbitrary: dst s)
  case Nil
  then show ?case by simp
next
  case (Cons y ys)
  let ?w = "width src"
  from Cons.prems(1) obtain d1 where
    x: "x_loop T F ker src dst y [0 ..< ?w] = Some d1" and
    r: "y_loop T F ker cb src d1 ys (cb s) = Some (dst', s')"
    by (auto split: option.splits)
  note xs = x_loop_Some [OF x]
  have w1: "width d1 = width src" using xs Cons.prems(2) by simp
  note ih = Cons.IH [OF r w1]
  have row: "pixels d1 ! j =
      (if j div ?w = y \<and> 0 < ?w
       then the (pixel_value T F ker src (int (j mod ?w)) (int (j div ?w)))
       else pixels dst ! j)" if j: "j < length (pixels dst)" for j
  proof (cases "j div ?w = y \<and> 0 < ?w")
    case True
    then have e: "j = y * ?w + j mod ?w" and m: "j mod ?w < ?w"
      by (auto simp: div_mult_mod_eq [symmetric])
    have "\<exists>x\<in>set [0 ..< ?w]. j = y * width dst + x"
      using e m Cons.prems(2) by auto
    moreover have "j - y * width dst = j mod ?w"
      using e Cons.prems(2) by simp
    ultimately show ?thesis using xs j True by (simp del: set_upt)
  next
    case False
    have ne: "\<not> (\<exists>x\<in>set [0 ..< ?w]. j = y * width dst + x)"
      using False Cons.prems(2) by auto
    have "pixels d1 ! j = pixels dst ! j"
      using xs j ne by (simp del: set_upt)
    moreover have "(if j div ?w = y \<and> 0 < ?w
       then the (pixel_value T F ker src (int (j mod ?w)) (int (j div ?w)))
       else pixels dst ! j) = pixels dst ! j"
      using False by (rule if_not_P)
    ultimately show ?thesis by simp
  qed
  have len1: "length (pixels d1) = length (pixels dst)" using xs by simp
  have "s' = (cb ^^ length (y # ys)) s"
    using ih by (simp add: funpow_swap1)
  moreover have "\<forall>y'\<in>set (y # ys). \<forall>x < ?w. pixel_value T F ker src (int x) (int y') \<noteq> None"
    using ih xs by auto
  moreover have "\<forall>j < length (pixels dst). pixels dst' ! j =
        (if j div ?w \<in> set (y # ys) \<and> 0 < ?w
         then the (pixel_value T F ker src (int (j mod ?w)) (int (j div ?w)))
         else pixels dst ! j)"
    using ih row len1 by auto
  ultimately show ?case using ih xs by simp
qed

lemma y_loop_total:
  "\<forall>y\<in>set ys. \<forall>x < width src. pixel_value T F ker src (int x) (int y) \<noteq> None \<Longrightarrow>
   \<forall>y\<in>set ys. \<forall>x < width src. y * width dst + x < length (pixels dst) \<Longrightarrow>
   \<exists>r. y_loop T F ker cb src dst ys s = Some r"
proof (induction ys arbitrary: dst s)
  case Nil
  then show ?case by simp
next
  case (Cons y ys)
  have "\<exists>d1. x_loop T F ker src dst y [0 ..< width src] = Some d1"
    using Cons.prems by (intro x_loop_total) auto
  then obtain d1 where x: "x_loop T F ker src dst y [0 ..< width src] = Some d1" ..
  note xs = x_loop_Some [OF x]
  have "\<exists>r. y_loop T F ker cb src d1 ys (cb s) = Some r"
    using Cons.prems xs by (intro Cons.IH) auto
  then show ?case using x by simp
qed

lemma y_loop_None:
  "y \<in> set ys \<Longrightarrow> x < width src \<Longrightarrow> pixel_value T F ker src (int x) (int y) = None \<Longrightarrow>
   y_loop T F ker cb src dst ys s = None"
proof (induction ys arbitrary: dst s)
  case Nil
  then show ?case by simp
next
  case (Cons a ys)
  show ?case
  proof (cases "x_loop T F ker src dst a [0 ..< width src]")
    case None
    then show ?thesis by simp
  next
    case (Some d1)
    have "a \<noteq> y"
    proof
      assume "a = y"
      then have "x_loop T F ker src dst a [0 ..< width src] = None"
        using Cons.prems by (intro x_loop_None [of x]) auto
      with Some show False by simp
    qed
    then have "y \<in> set ys" using Cons.prems by simp
    then show ?thesis using Some Cons.IH Cons.prems by simp
  qed
qed

lemma y_loop_generation:
  assumes wf: "wf_plane dst" and sd: "same_dims src dst"
  shows "y_loop T F ker cb src dst [0 ..< height src] s =
           map_option (\<lambda>g. (g, (cb ^^ height src) s)) (generation T F ker src)"
proof (cases "\<forall>y < height src. \<forall>x < width src. pixel_value T F ker src (int x) (int y) \<noteq> None")
  case False
  then obtain y x where "y < height src" "x < width src"
    "pixel_value T F ker src (int x) (int y) = None" by auto
  then have "y_loop T F ker cb src dst [0 ..< height src] s = None"
    by (intro y_loop_None [of y _ x]) auto
  moreover have "generation T F ker src = None"
    using False by (simp add: generation_def)
  ultimately show ?thesis by simp
next
  case True
  let ?w = "width src" and ?h = "height src"
  have wd: "width dst = ?w" and hd: "height dst = ?h" and len: "length (pixels dst) = ?w * ?h"
    using wf sd by (auto simp: wf_plane_def same_dims_def)
  have rng: "\<forall>y\<in>set [0 ..< ?h]. \<forall>x < ?w. y * width dst + x < length (pixels dst)"
  proof (intro ballI allI impI)
    fix y x assume "y \<in> set [0 ..< ?h]" "x < ?w"
    then have "x < ?w" "Suc y \<le> ?h" by auto
    then have "y * ?w + x < Suc y * ?w" "Suc y * ?w \<le> ?h * ?w"
      by (simp, intro mult_le_mono1)
    then show "y * width dst + x < length (pixels dst)"
      using wd len by (simp add: mult.commute)
  qed
  have "\<exists>r. y_loop T F ker cb src dst [0 ..< ?h] s = Some r"
    using True rng by (intro y_loop_total) auto
  then obtain d' s' where r: "y_loop T F ker cb src dst [0 ..< ?h] s = Some (d', s')"
    by auto
  note ys = y_loop_Some [OF r wd]
  have px: "pixels d' = map (\<lambda>j. the (pixel_value T F ker src (int (j mod ?w)) (int (j div ?w))))
                           [0 ..< ?w * ?h]"
  proof (rule nth_equalityI)
    show "length (pixels d') = length (map (\<lambda>j. the (pixel_value T F ker src (int (j mod ?w)) (int (j div ?w)))) [0 ..< ?w * ?h])"
      using ys len by simp
  next
    fix j assume "j < length (pixels d')"
    then have j: "j < ?w * ?h" using ys len by simp
    then have "0 < ?w" by (cases "?w") auto
    moreover have "j div ?w < ?h" using j by (simp add: less_mult_imp_div_less mult.commute)
    ultimately show "pixels d' ! j = map (\<lambda>j. the (pixel_value T F ker src (int (j mod ?w)) (int (j div ?w)))) [0 ..< ?w * ?h] ! j"
      using ys j len by simp
  qed
  have "d' = \<lparr>width = ?w, height = ?h, pixels = map (\<lambda>j. the (pixel_value T F ker src (int (j mod ?w)) (int (j div ?w)))) [0 ..< ?w * ?h]\<rparr>"
    using ys px wd hd by (cases d') simp
  moreover have "s' = (cb ^^ ?h) s" using ys by simp
  ultimately show ?thesis using r True by (simp add: generation_def)
qed

section \<open>The iterations compute the generations\<close>

lemma generation_dims:
  "generation T F ker X = Some Y \<Longrightarrow> wf_plane Y \<and> width Y = width X \<and> height Y = height X"
  by (auto simp: generation_def wf_plane_def split: if_splits)

lemma generations_dims:
  "generations T F ker n X = Some Y \<Longrightarrow> wf_plane X \<Longrightarrow>
     wf_plane Y \<and> width Y = width X \<and> height Y = height X"
proof (induction n arbitrary: X)
  case 0
  then show ?case by simp
next
  case (Suc n)
  then obtain G where g: "generation T F ker X = Some G" and r: "generations T F ker n G = Some Y"
    by (auto split: option.splits)
  from generation_dims [OF g] Suc.IH [OF r] show ?case by simp
qed

lemma funpow_rows: "(cb ^^ a) ((cb ^^ b) s) = (cb ^^ (a + b)) s"
  by (simp add: funpow_add)

lemma iteration_loop_generations:
  "wf_plane src \<Longrightarrow> wf_plane dst \<Longrightarrow> same_dims src dst \<Longrightarrow>
   map_option (\<lambda>(a, b, s'). (a, s')) (iteration_loop T F ker cb n src dst s) =
   map_option (\<lambda>g. (g, (cb ^^ (n * height src)) s)) (generations T F ker n src)"
proof (induction n arbitrary: src dst s)
  case 0
  show ?case by simp
next
  case (Suc n)
  note y = y_loop_generation [OF Suc.prems(2,3), of T F ker cb s]
  show ?case
  proof (cases "generation T F ker src")
    case None
    then show ?thesis using y by simp
  next
    case (Some G)
    note gd = generation_dims [OF Some]
    have sd: "same_dims G src" using gd by (simp add: same_dims_def)
    have "map_option (\<lambda>(a, b, s'). (a, s')) (iteration_loop T F ker cb (Suc n) src dst s) =
          map_option (\<lambda>(a, b, s'). (a, s'))
            (iteration_loop T F ker cb n G src ((cb ^^ height src) s))"
      using y Some by simp
    also have "\<dots> = map_option (\<lambda>g. (g, (cb ^^ (n * height G)) ((cb ^^ height src) s)))
                        (generations T F ker n G)"
      using gd sd Suc.prems(1) by (intro Suc.IH) simp_all
    also have "\<dots> = map_option (\<lambda>g. (g, (cb ^^ (Suc n * height src)) s))
                        (generations T F ker (Suc n) src)"
      using Some gd by (simp add: funpow_rows ac_simps)
    finally show ?thesis .
  qed
qed

lemma applyMorphology_generations:
  assumes "wf_plane src" "wf_plane dst" "same_dims src dst"
  shows "map_option (\<lambda>(a, b, s'). (b, s')) (applyMorphology T F src dst iterations ker cb s) =
         map_option (\<lambda>g. (g, (cb ^^ (nat iterations * height src)) s))
           (generations T F ker (nat iterations) src)"
proof -
  have "map_option (\<lambda>(a, b, s'). (b, s')) (applyMorphology T F src dst iterations ker cb s) =
        map_option (\<lambda>(a, b, s'). (a, s'))
          (iteration_loop T F ker cb (nat iterations) src dst s)"
    by (simp add: applyMorphology_def split: option.splits)
  then show ?thesis
    using iteration_loop_generations [OF assms] by simp
qed

lemma dilate_generations:
  assumes "wf_plane src" "wf_plane dst" "same_dims src dst"
  shows "dilate src dst iterations ker cb s =
         map_option (\<lambda>g. (g, (cb ^^ (nat iterations * height src)) s))
           (generations 1 0 ker (nat iterations) src)"
proof -
  have "dilate src dst iterations ker cb s =
        map_option (\<lambda>(a, b, s'). (b, s')) (applyMorphology 1 0 src dst iterations ker cb s)"
    by (simp add: dilate_def split: option.splits)
  then show ?thesis
    using applyMorphology_generations [OF assms] by simp
qed

lemma erode_generations:
  assumes "wf_plane src" "wf_plane dst" "same_dims src dst"
  shows "erode src dst iterations ker cb s =
         map_option (\<lambda>g. (g, (cb ^^ (nat iterations * height src)) s))
           (generations 0 1 ker (nat iterations) src)"
proof -
  have "erode src dst iterations ker cb s =
        map_option (\<lambda>(a, b, s'). (b, s')) (applyMorphology 0 1 src dst iterations ker cb s)"
    by (simp add: erode_def split: option.splits)
  then show ?thesis
    using applyMorphology_generations [OF assms] by simp
qed

lemma open_morph_generations:
  assumes "wf_plane src" "wf_plane dst" "same_dims src dst"
  shows "open_morph src dst iterations ker cb s =
         (case generations 0 1 ker (nat iterations) src of
            None \<Rightarrow> None
          | Some M \<Rightarrow>
              map_option (\<lambda>g. (g, (cb ^^ (2 * (nat iterations * height src))) s))
                (generations 1 0 ker (nat iterations) M))"
proof (cases "generations 0 1 ker (nat iterations) src")
  case None
  then show ?thesis
    using erode_generations [OF assms, of iterations ker cb s] by (simp add: open_morph_def)
next
  case (Some M)
  note md = generations_dims [OF Some assms(1)]
  have sd: "same_dims M src" using md by (simp add: same_dims_def)
  have "open_morph src dst iterations ker cb s =
        dilate M src iterations ker cb ((cb ^^ (nat iterations * height src)) s)"
    using erode_generations [OF assms, of iterations ker cb s] Some
    by (simp add: open_morph_def)
  also have "\<dots> = map_option (\<lambda>g. (g, (cb ^^ (nat iterations * height M))
                                        ((cb ^^ (nat iterations * height src)) s)))
                      (generations 1 0 ker (nat iterations) M)"
    using md sd assms(1) by (intro dilate_generations) simp_all
  finally show ?thesis
    using Some md by (simp add: funpow_rows mult_2)
qed

lemma close_morph_generations:
  assumes "wf_plane src" "wf_plane dst" "same_dims src dst"
  shows "close_morph src dst iterations ker cb s =
         (case generations 1 0 ker (nat iterations) src of
            None \<Rightarrow> None
          | Some M \<Rightarrow>
              map_option (\<lambda>g. (g, (cb ^^ (2 * (nat iterations * height src))) s))
                (generations 0 1 ker (nat iterations) M))"
proof (cases "generations 1 0 ker (nat iterations) src")
  case None
  then show ?thesis
    using dilate_generations [OF assms, of iterations ker cb s] by (simp add: close_morph_def)
next
  case (Some M)
  note md = generations_dims [OF Some assms(1)]
  have sd: "same_dims M src" using md by (simp add: same_dims_def)
  have "close_morph src dst iterations ker cb s =
        erode M src iterations ker cb ((cb ^^ (nat iterations * height src)) s)"
    using dilate_generations [OF assms, of iterations ker cb s] Some
    by (simp add: close_morph_def)
  also have "\<dots> = map_option (\<lambda>g. (g, (cb ^^ (nat iterations * height M))
                                        ((cb ^^ (nat iterations * height src)) s)))
                      (generations 0 1 ker (nat iterations) M)"
    using md sd assms(1) by (intro erode_generations) simp_all
  finally show ?thesis
    using Some md by (simp add: funpow_rows mult_2)
qed

section \<open>The scan of one pixel\<close>

lemma isqrt_bounds: "isqrt n * isqrt n \<le> n \<and> n < (isqrt n + 1) * (isqrt n + 1)"
proof (induction n)
  case 0
  show ?case by simp
next
  case (Suc n)
  then show ?case by (auto simp: Let_def)
qed

text \<open>\<open>isqrt\<close> is the integer part of the real square root.\<close>

lemma isqrt_floor_sqrt: "int (isqrt n) = \<lfloor>sqrt (real n)\<rfloor>"
proof -
  let ?r = "isqrt n"
  have lo: "real ?r \<le> sqrt (real n)"
  proof (rule real_le_rsqrt)
    have "?r * ?r \<le> n" using isqrt_bounds [of n] by simp
    then have "real (?r * ?r) \<le> real n" by (simp only: of_nat_le_iff)
    then show "(real ?r)\<^sup>2 \<le> real n" by (simp add: power2_eq_square)
  qed
  have hi: "sqrt (real n) < real ?r + 1"
  proof (rule real_less_lsqrt)
    show "0 \<le> real ?r + 1" by simp
    have "n < (?r + 1) * (?r + 1)" using isqrt_bounds [of n] by simp
    then have "real n < real ((?r + 1) * (?r + 1))" by (simp only: of_nat_less_iff)
    then show "real n < (real ?r + 1)\<^sup>2" by (simp add: power2_eq_square algebra_simps)
  qed
  have "\<lfloor>sqrt (real n)\<rfloor> = int ?r"
    by (rule floor_unique) (use lo hi in simp_all)
  then show ?thesis by simp
qed

lemma isqrt_unique:
  assumes "r * r \<le> n" "n < (r + 1) * (r + 1)"
  shows "isqrt n = r"
proof (rule ccontr)
  assume ne: "isqrt n \<noteq> r"
  note b = isqrt_bounds [of n]
  show False
  proof (cases "isqrt n < r")
    case True
    then have "isqrt n + 1 \<le> r" by simp
    then have "(isqrt n + 1) * (isqrt n + 1) \<le> r * r" by (intro mult_le_mono)
    with b assms show False by simp
  next
    case False
    with ne have "r + 1 \<le> isqrt n" by simp
    then have "(r + 1) * (r + 1) \<le> isqrt n * isqrt n" by (intro mult_le_mono)
    with b assms show False by simp
  qed
qed

lemma isqrt_square: "isqrt (r * r) = r"
  by (rule isqrt_unique) simp_all

lemma kernelOffset_odd_square:
  "length ker = (2 * r + 1) * (2 * r + 1) \<Longrightarrow> kernelOffset ker = int r"
  by (simp add: kernelOffset_def isqrt_square del: mult_Suc mult_Suc_right)

lemma kernelOffset_floor_sqrt: "kernelOffset ker = \<lfloor>sqrt (real (length ker))\<rfloor> div 2"
  by (simp add: kernelOffset_def zdiv_int isqrt_floor_sqrt [symmetric])

lemma p_read_inb:
  assumes "wf_plane P" "inb P x y"
  shows "p_read P x y = Some (pixels P ! (nat y * width P + nat x))"
proof -
  obtain a b where x: "x = int a" and y: "y = int b" and a: "a < width P" and b: "b < height P"
    using assms(2) unfolding inb_def by (metis nat_less_iff zero_le_imp_eq_int nat_int)
  have "b * width P + a < b * width P + width P" using a by simp
  also have "\<dots> = Suc b * width P" by simp
  also have "\<dots> \<le> height P * width P" using b by (intro mult_le_mono1) simp
  finally have "b * width P + a < length (pixels P)"
    using assms(1) by (simp add: wf_plane_def mult.commute)
  then show ?thesis
    unfolding x y by (simp add: p_read_def Let_def nat_add_distrib nat_mult_distrib)
qed

lemma kx_loop_total:
  assumes "wf_plane src"
  shows "i + length kxs \<le> length ker \<Longrightarrow>
         \<exists>r. kx_loop T ker src x y ky kxs i = Some r \<and> snd r \<le> i + length kxs"
proof (induction kxs arbitrary: i)
  case Nil
  show ?case by simp
next
  case (Cons kx kxs)
  show ?case
  proof (cases "inb src (x + kx) (y + ky)")
    case False
    then have "kx_loop T ker src x y ky (kx # kxs) i = kx_loop T ker src x y ky kxs i"
      by (auto simp: inb_def)
    moreover have "\<exists>r. kx_loop T ker src x y ky kxs i = Some r \<and> snd r \<le> i + length kxs"
      using Cons.prems by (intro Cons.IH) simp
    ultimately show ?thesis by auto
  next
    case True
    then obtain p where p: "p_read src (x + kx) (y + ky) = Some p"
      using p_read_inb [OF assms True] by simp
    have il: "i < length ker" using Cons.prems by simp
    have nb: "\<not> (x + kx < 0 \<or> x + kx \<ge> int (width src) \<or> y + ky < 0 \<or> y + ky \<ge> int (height src))"
      using True by (auto simp: inb_def)
    show ?thesis
    proof (cases "ker ! i \<and> p = T")
      case c: True
      then have "kx_loop T ker src x y ky (kx # kxs) i = Some (True, i + 1)"
        using nb p il by (simp add: Let_def)
      then show ?thesis by simp
    next
      case c: False
      then have e: "kx_loop T ker src x y ky (kx # kxs) i = kx_loop T ker src x y ky kxs (i + 1)"
        using nb p il by (auto simp: Let_def)
      have "\<exists>r. kx_loop T ker src x y ky kxs (i + 1) = Some r \<and> snd r \<le> (i + 1) + length kxs"
        using Cons.prems by (intro Cons.IH) simp
      then show ?thesis using e by auto
    qed
  qed
qed

lemma kx_loop_sound:
  "kx_loop T ker src x y ky kxs i = Some (True, i') \<Longrightarrow>
   \<exists>kx\<in>set kxs. inb src (x + kx) (y + ky) \<and> p_read src (x + kx) (y + ky) = Some T"
  by (induction kxs arbitrary: i)
     (auto simp: Let_def inb_def split: if_splits option.splits)

lemma kx_loop_complete:
  "kx_loop T ker src x y ky kxs i = Some (c, i') \<Longrightarrow> all_active ker \<Longrightarrow>
   kx \<in> set kxs \<Longrightarrow> inb src (x + kx) (y + ky) \<Longrightarrow> p_read src (x + kx) (y + ky) = Some T \<Longrightarrow> c"
  by (induction kxs arbitrary: i)
     (auto simp: Let_def inb_def all_active_def list_all_length split: if_splits option.splits)

lemma ky_loop_total:
  assumes "wf_plane src" "0 \<le> off"
  shows "i + length kys * nat (2 * off + 1) \<le> length ker \<Longrightarrow>
         \<exists>r. ky_loop T ker src x y off kys i = Some r \<and>
             snd r \<le> i + length kys * nat (2 * off + 1)"
proof (induction kys arbitrary: i)
  case Nil
  show ?case by simp
next
  case (Cons ky kys)
  have len: "length [- off .. off] = nat (2 * off + 1)" using assms(2) by simp
  have "i + length [- off .. off] \<le> length ker" using Cons.prems len by simp
  from kx_loop_total [OF assms(1) this, of T x y ky] obtain r1 where
    k: "kx_loop T ker src x y ky [- off .. off] i = Some r1" and
    i1: "snd r1 \<le> i + nat (2 * off + 1)" unfolding len by blast
  obtain c i1 where r1: "r1 = (c, i1)" by (cases r1)
  show ?case
  proof (cases c)
    case True
    then show ?thesis using k i1 r1 by simp
  next
    case False
    have "\<exists>r. ky_loop T ker src x y off kys i1 = Some r \<and>
                snd r \<le> i1 + length kys * nat (2 * off + 1)"
      using Cons.prems i1 r1 by (intro Cons.IH) simp
    then show ?thesis using k i1 r1 False by auto
  qed
qed

lemma ky_loop_sound:
  "ky_loop T ker src x y off kys i = Some (True, i') \<Longrightarrow>
   \<exists>ky\<in>set kys. \<exists>kx\<in>set [- off .. off].
      inb src (x + kx) (y + ky) \<and> p_read src (x + kx) (y + ky) = Some T"
proof (induction kys arbitrary: i)
  case Nil
  then show ?case by simp
next
  case (Cons ky kys)
  from Cons.prems obtain c i1 where
    k: "kx_loop T ker src x y ky [- off .. off] i = Some (c, i1)"
    by (auto split: option.splits)
  show ?case
  proof (cases c)
    case True
    with k have "\<exists>kx\<in>set [- off .. off].
        inb src (x + kx) (y + ky) \<and> p_read src (x + kx) (y + ky) = Some T"
      by (intro kx_loop_sound [of T ker src x y ky _ i i1]) simp
    then show ?thesis by simp
  next
    case False
    with k Cons.prems have "ky_loop T ker src x y off kys i1 = Some (True, i')" by simp
    from Cons.IH [OF this] show ?thesis by simp
  qed
qed

lemma ky_loop_complete:
  "ky_loop T ker src x y off kys i = Some (c, i') \<Longrightarrow> all_active ker \<Longrightarrow>
   ky \<in> set kys \<Longrightarrow> kx \<in> set [- off .. off] \<Longrightarrow>
   inb src (x + kx) (y + ky) \<Longrightarrow> p_read src (x + kx) (y + ky) = Some T \<Longrightarrow> c"
proof (induction kys arbitrary: i)
  case Nil
  then show ?case by simp
next
  case (Cons a kys)
  from Cons.prems(1) obtain c1 i1 where
    k: "kx_loop T ker src x y a [- off .. off] i = Some (c1, i1)"
    by (auto split: option.splits)
  show ?case
  proof (cases c1)
    case True
    with k Cons.prems(1) show ?thesis by simp
  next
    case False
    with k Cons.prems(1) have r: "ky_loop T ker src x y off kys i1 = Some (c, i')" by simp
    have "ky \<noteq> a"
    proof
      assume "ky = a"
      with k Cons.prems have c1
        by (intro kx_loop_complete [of T ker src x y a "[- off .. off]" i c1 i1 kx]) simp_all
      with False show False by simp
    qed
    with Cons.prems have "ky \<in> set kys" by simp
    from Cons.IH [OF r Cons.prems(2) this Cons.prems(4,5,6)] show ?thesis .
  qed
qed

section \<open>Scenario A, zero iterations, the final generation\<close>

lemma generation_table:
  assumes "width src = w" "height src = h"
    and "map (\<lambda>j. pixel_value T F ker src (int (j mod w)) (int (j div w))) [0 ..< w * h]
           = map Some vs"
  shows "generation T F ker src = Some \<lparr>width = w, height = h, pixels = vs\<rparr>"
proof -
  let ?pv = "\<lambda>x y. pixel_value T F ker src (int x) (int y)"
  have len: "length vs = w * h"
    using arg_cong [OF assms(3), of length] by simp
  have pv: "?pv (j mod w) (j div w) = Some (vs ! j)" if "j < w * h" for j
    using arg_cong [OF assms(3), of "\<lambda>l. l ! j"] that len by simp
  have ok: "?pv x y \<noteq> None" if y: "y < h" and x: "x < w" for x y
  proof -
    have "y * w + x < y * w + w" using x by simp
    also have "\<dots> = Suc y * w" by simp
    also have "\<dots> \<le> h * w" using y by (intro mult_le_mono1) simp
    finally have "y * w + x < w * h" by (simp add: mult.commute)
    from pv [OF this] show ?thesis using x by simp
  qed
  have "map (\<lambda>j. the (?pv (j mod w) (j div w))) [0 ..< w * h] = vs"
    by (rule nth_equalityI) (simp_all add: len pv)
  then show ?thesis
    using ok by (simp add: generation_def assms(1,2))
qed

lemma isqrt_9: "isqrt 9 = 3"
  by code_simp

lemma upto_m1_1: "[- 1 .. 1] = [- 1, 0, 1 :: int]"
  by (simp add: upto.simps)

lemma kernelOffset_9: "length ker = 9 \<Longrightarrow> kernelOffset ker = 1"
  by (simp add: kernelOffset_def isqrt_9)

lemma upt_25:
  "[0 ..< 25] = [0,1,2,3,4,5,6,7,8,9,10,11,12,13,14,15,16,17,18,19,20,21,22,23,24::nat]"
  by (simp add: upt_rec)

lemma replicate_unfold: "replicate (numeral k) x = x # replicate (pred_numeral k) x"
  by (simp add: numeral_eq_Suc)

lemmas scan_eval =
  pixel_value_def kernelOffset_9 upto_m1_1 p_read_def Let_def upt_25 kernel3x3_def
  replicate_unfold

lemma dilation_speck5: "generation 1 0 kernel3x3 speck5 = Some block5"
  unfolding block5_def by (rule generation_table) (simp_all add: scan_eval speck5_def)

lemma dilation_block5: "generation 1 0 kernel3x3 block5 = Some full5"
  unfolding full5_def by (rule generation_table) (simp_all add: scan_eval block5_def)

lemma dilation_blank5: "generation 1 0 kernel3x3 blank5 = Some blank5"
  unfolding blank5_def by (rule generation_table) (simp_all add: scan_eval)

lemma erosion_speck5: "generation 0 1 kernel3x3 speck5 = Some blank5"
  unfolding blank5_def by (rule generation_table) (simp_all add: scan_eval speck5_def)

lemma erosion_blank5: "generation 0 1 kernel3x3 blank5 = Some blank5"
  unfolding blank5_def by (rule generation_table) (simp_all add: scan_eval)

lemma erosion_full5: "generation 0 1 kernel3x3 full5 = Some full5"
  unfolding full5_def by (rule generation_table) (simp_all add: scan_eval)

lemma wf_planes5: "wf_plane speck5" "wf_plane stale5" "same_dims speck5 stale5"
  by (simp_all add: wf_plane_def same_dims_def speck5_def stale5_def)

lemma applyMorphology_dst:
  assumes "wf_plane src" "wf_plane dst" "same_dims src dst"
  shows "map_option (\<lambda>(src', dst', s'). dst') (applyMorphology T F src dst N ker cb s) =
           generations T F ker (nat N) src"
  using applyMorphology_generations [OF assms, of T F N ker cb s]
  by (cases "applyMorphology T F src dst N ker cb s";
      cases "generations T F ker (nat N) src") auto

text \<open>
  C6 (Scenario A).  On the 5x5 raster whose only foreground pixel is (2,2), one Dilate
  iteration with the 3x3 all-active kernel yields the 3x3 foreground block centred at
  (2,2) and background everywhere else, whatever the pre-sized destination plane held
  before; the callback has run once per row.
\<close>

theorem C6_scenario_A:
  assumes "wf_plane dst" "width dst = 5" "height dst = 5"
  shows "dilate speck5 dst 1 kernel3x3 cb s = Some (block5, (cb ^^ 5) s)"
proof -
  have sd: "same_dims speck5 dst" using assms by (simp add: same_dims_def speck5_def)
  have h: "height speck5 = 5" by (simp add: speck5_def)
  show ?thesis
    using dilate_generations [OF wf_planes5(1) assms(1) sd, of 1 kernel3x3 cb s]
    by (simp add: dilation_speck5 h)
qed

theorem C6_scenario_A_witness:
  "wf_plane stale5 \<and> width stale5 = 5 \<and> height stale5 = 5 \<and>
   dilate speck5 stale5 1 kernel3x3 Suc (0::nat) = Some (block5, 5)"
proof -
  have a: "wf_plane stale5" and b: "width stale5 = 5" and c: "height stale5 = 5"
    by (simp_all add: wf_plane_def stale5_def)
  show ?thesis using C6_scenario_A [OF a b c, of Suc 0] a b c by simp
qed

text \<open>
  C10.  With an iteration count of 0 each of the four operators returns normally, the
  destination plane is a copy of the source plane, and the state of the progress callback
  is the one it was called with: the callback has not run.
\<close>

theorem C10_zero_iterations:
  "dilate src dst 0 ker cb s = Some (src, s) \<and>
   erode src dst 0 ker cb s = Some (src, s) \<and>
   open_morph src dst 0 ker cb s = Some (src, s) \<and>
   close_morph src dst 0 ker cb s = Some (src, s)"
  by (simp add: dilate_def erode_def open_morph_def close_morph_def applyMorphology_def)

theorem C10_zero_iterations_witness:
  "dilate speck5 stale5 0 [] Suc (0::nat) = Some (speck5, 0) \<and>
   erode speck5 stale5 0 [] Suc (0::nat) = Some (speck5, 0) \<and>
   open_morph speck5 stale5 0 [] Suc (0::nat) = Some (speck5, 0) \<and>
   close_morph speck5 stale5 0 [] Suc (0::nat) = Some (speck5, 0)"
  by (rule C10_zero_iterations)

text \<open>
  C5.  For every iteration count \<open>N \<ge> 1\<close>, \<open>applyMorphology\<close> returns exactly when the
  \<open>N\<close>-th generation of the source is defined, and then the caller's destination plane
  holds that generation: the single scan applied \<open>N\<close> times.  For Open the destination
  holds \<open>N\<close> dilating scans of \<open>N\<close> eroding scans of the source, for Close \<open>N\<close> eroding scans
  of \<open>N\<close> dilating scans.
\<close>

theorem C5_destination_holds_final_generation:
  assumes "wf_plane src" "wf_plane dst" "same_dims src dst" "1 \<le> N"
  shows "map_option (\<lambda>(src', dst', s'). dst') (applyMorphology T F src dst N ker cb s) =
           generations T F ker (nat N) src \<and>
         map_option fst (open_morph src dst N ker cb s) =
           Option.bind (generations 0 1 ker (nat N) src) (generations 1 0 ker (nat N)) \<and>
         map_option fst (close_morph src dst N ker cb s) =
           Option.bind (generations 1 0 ker (nat N) src) (generations 0 1 ker (nat N))"
proof (intro conjI)
  show "map_option (\<lambda>(src', dst', s'). dst') (applyMorphology T F src dst N ker cb s) =
           generations T F ker (nat N) src"
    using assms(1,2,3) by (rule applyMorphology_dst)
next
  show "map_option fst (open_morph src dst N ker cb s) =
           Option.bind (generations 0 1 ker (nat N) src) (generations 1 0 ker (nat N))"
    using open_morph_generations [OF assms(1,2,3), of N ker cb s]
    by (simp add: option.map_comp comp_def option.map_ident split: option.splits)
next
  show "map_option fst (close_morph src dst N ker cb s) =
           Option.bind (generations 1 0 ker (nat N) src) (generations 0 1 ker (nat N))"
    using close_morph_generations [OF assms(1,2,3), of N ker cb s]
    by (simp add: option.map_comp comp_def option.map_ident split: option.splits)
qed

lemma two_dilations_speck5: "generations 1 0 kernel3x3 (nat 2) speck5 = Some full5"
  by (simp add: numeral_2_eq_2 dilation_speck5 dilation_block5)

lemma two_erosions_speck5: "generations 0 1 kernel3x3 (nat 2) speck5 = Some blank5"
  by (simp add: numeral_2_eq_2 erosion_speck5 erosion_blank5)

lemma two_dilations_blank5: "generations 1 0 kernel3x3 (nat 2) blank5 = Some blank5"
  by (simp add: numeral_2_eq_2 dilation_blank5)

lemma two_erosions_full5: "generations 0 1 kernel3x3 (nat 2) full5 = Some full5"
  by (simp add: numeral_2_eq_2 erosion_full5)

theorem C5_destination_holds_final_generation_witness:
  "wf_plane speck5 \<and> wf_plane stale5 \<and> same_dims speck5 stale5 \<and> (1::int) \<le> 2 \<and>
   map_option (\<lambda>(src', dst', s'). dst')
     (applyMorphology 1 0 speck5 stale5 2 kernel3x3 Suc (0::nat)) = Some full5 \<and>
   map_option fst (open_morph speck5 stale5 2 kernel3x3 Suc (0::nat)) = Some blank5 \<and>
   map_option fst (close_morph speck5 stale5 2 kernel3x3 Suc (0::nat)) = Some full5"
proof -
  have n: "(1::int) \<le> 2" by simp
  show ?thesis
    using C5_destination_holds_final_generation
            [OF wf_planes5 n, of 1 0 kernel3x3 Suc "0::nat"]
          wf_planes5 two_dilations_speck5 two_erosions_speck5 two_dilations_blank5
          two_erosions_full5
    by simp
qed

lemma dilate_speck5_stale5:
  "dilate speck5 stale5 1 kernel3x3 cb s = Some (block5, (cb ^^ 5) s)"
proof -
  have h: "height speck5 = 5" by (simp add: speck5_def)
  show ?thesis
    using dilate_generations [OF wf_planes5, of 1 kernel3x3 cb s]
    by (simp add: dilation_speck5 h)
qed

section \<open>Duality, and the scan at the border\<close>

lemma p_read_negate: "p_read (negate X) x y = map_option (\<lambda>v. 1 - v) (p_read X x y)"
  by (simp add: p_read_def negate_def Let_def)

lemma kx_loop_negate:
  "kx_loop 1 ker (negate X) x y ky kxs i = kx_loop 0 ker X x y ky kxs i"
proof (induction kxs arbitrary: i)
  case Nil
  show ?case by simp
next
  case (Cons kx kxs)
  have d: "width (negate X) = width X" "height (negate X) = height X"
    by (simp_all add: negate_def)
  show ?case
    by (cases "p_read X (x + kx) (y + ky)") (simp_all add: d p_read_negate Cons.IH Let_def)
qed

lemma ky_loop_negate:
  "ky_loop 1 ker (negate X) x y off kys i = ky_loop 0 ker X x y off kys i"
  by (induction kys arbitrary: i) (simp_all add: kx_loop_negate split: option.splits)

lemma pixel_value_negate:
  "pixel_value 0 1 ker X x y = map_option (\<lambda>v. 1 - v) (pixel_value 1 0 ker (negate X) x y)"
  by (simp add: pixel_value_def ky_loop_negate Let_def split: option.splits)

lemma generation_negate:
  "generation 0 1 ker X = map_option negate (generation 1 0 ker (negate X))"
proof -
  have d: "width (negate X) = width X" "height (negate X) = height X"
    by (simp_all add: negate_def)
  have n: "pixel_value 1 0 ker (negate X) x y = None \<longleftrightarrow> pixel_value 0 1 ker X x y = None"
    for x y by (simp add: pixel_value_negate)
  have t: "the (pixel_value 0 1 ker X x y) = 1 - the (pixel_value 1 0 ker (negate X) x y)"
    if "pixel_value 0 1 ker X x y \<noteq> None" for x y
    using that by (auto simp: pixel_value_negate)
  have c: "(\<forall>y < height X. \<forall>x < width X. pixel_value 1 0 ker (negate X) (int x) (int y) \<noteq> None)
           \<longleftrightarrow> (\<forall>y < height X. \<forall>x < width X. pixel_value 0 1 ker X (int x) (int y) \<noteq> None)"
    by (simp add: pixel_value_negate)
  show ?thesis
  proof (cases "\<forall>y < height X. \<forall>x < width X. pixel_value 0 1 ker X (int x) (int y) \<noteq> None")
    case False
    have "generation 0 1 ker X = None"
      using False unfolding generation_def by (rule if_not_P)
    moreover have "generation 1 0 ker (negate X) = None"
      using False unfolding generation_def d c by (rule if_not_P)
    ultimately show ?thesis by simp
  next
    case True
    have m: "map (\<lambda>j. the (pixel_value 0 1 ker X (int (j mod width X)) (int (j div width X))))
              [0 ..< width X * height X] =
          map (\<lambda>j. 1 - the (pixel_value 1 0 ker (negate X) (int (j mod width X)) (int (j div width X))))
              [0 ..< width X * height X]"
    proof (rule map_cong [OF refl])
      fix j assume "j \<in> set [0 ..< width X * height X]"
      then have j: "j < width X * height X" by simp
      then have "0 < width X" by (cases "width X") auto
      then have "j mod width X < width X" by simp
      moreover have "j div width X < height X"
        using j by (simp add: less_mult_imp_div_less mult.commute)
      ultimately have "pixel_value 0 1 ker X (int (j mod width X)) (int (j div width X)) \<noteq> None"
        using True by blast
      then show "the (pixel_value 0 1 ker X (int (j mod width X)) (int (j div width X))) =
                 1 - the (pixel_value 1 0 ker (negate X) (int (j mod width X)) (int (j div width X)))"
        by (rule t)
    qed
    have "generation 0 1 ker X =
          Some \<lparr>width = width X, height = height X,
                 pixels = map (\<lambda>j. the (pixel_value 0 1 ker X (int (j mod width X)) (int (j div width X))))
                              [0 ..< width X * height X]\<rparr>"
      using True unfolding generation_def by (rule if_P)
    moreover have "generation 1 0 ker (negate X) =
          Some \<lparr>width = width X, height = height X,
                 pixels = map (\<lambda>j. the (pixel_value 1 0 ker (negate X) (int (j mod width X)) (int (j div width X))))
                              [0 ..< width X * height X]\<rparr>"
      using True unfolding generation_def d c by (rule if_P)
    ultimately show ?thesis
      using m by (simp add: negate_def comp_def)
  qed
qed

text \<open>
  C3.  For every well-formed plane \<open>X\<close> and every structuring element, one Erode iteration
  on \<open>X\<close> gives the pixel-wise negation of what one Dilate iteration gives on the
  pixel-wise negation of \<open>X\<close>, with the same structuring element and a destination buffer
  of the dimensions of \<open>X\<close>; the two calls also agree on whether they return and on the
  state of the callback.
\<close>

theorem C3_erode_dilate_duality:
  assumes "wf_plane X" "wf_plane dst" "same_dims X dst"
  shows "erode X dst 1 ker cb s =
           map_option (\<lambda>(Y, s'). (negate Y, s')) (dilate (negate X) dst 1 ker cb s)"
proof -
  have w: "wf_plane (negate X)" using assms(1) by (simp add: wf_plane_def negate_def)
  have sd: "same_dims (negate X) dst" using assms(3) by (simp add: same_dims_def negate_def)
  have h: "height (negate X) = height X" by (simp add: negate_def)
  show ?thesis
    using erode_generations [OF assms, of 1 ker cb s]
          dilate_generations [OF w assms(2) sd, of 1 ker cb s]
    by (simp add: generation_negate h option.map_comp comp_def split: option.splits)
qed


lemma erode_speck5_stale5:
  "erode speck5 stale5 1 kernel3x3 cb s = Some (blank5, (cb ^^ 5) s)"
proof -
  have h: "height speck5 = 5" by (simp add: speck5_def)
  show ?thesis
    using erode_generations [OF wf_planes5, of 1 kernel3x3 cb s]
    by (simp add: erosion_speck5 h)
qed

theorem C3_erode_dilate_duality_witness:
  "wf_plane speck5 \<and> wf_plane stale5 \<and> same_dims speck5 stale5 \<and>
   erode speck5 stale5 1 kernel3x3 Suc (0::nat) = Some (blank5, 5) \<and>
   map_option (\<lambda>(Y, s'). (negate Y, s')) (dilate (negate speck5) stale5 1 kernel3x3 Suc (0::nat))
     = Some (blank5, 5)"
  using C3_erode_dilate_duality [OF wf_planes5, of kernel3x3 Suc "0::nat"]
        wf_planes5 erode_speck5_stale5 [of Suc "0::nat"]
  by simp

lemma upt_4: "[0 ..< 4] = [0, 1, 2, 3::nat]"
  by (simp add: upt_rec)

lemmas scan_eval2 =
  pixel_value_def kernelOffset_9 upto_m1_1 p_read_def Let_def upt_4
  centre3x3_def topleft3x3_def

lemma wf_planes2:
  "wf_plane ones2" "wf_plane zeros2" "wf_plane corner2" "wf_plane stale2"
  "same_dims ones2 stale2" "same_dims zeros2 stale2" "same_dims corner2 stale2"
  by (simp_all add: wf_plane_def same_dims_def ones2_def zeros2_def corner2_def stale2_def)

lemma heights2: "height ones2 = 2" "height zeros2 = 2" "height corner2 = 2"
  by (simp_all add: ones2_def zeros2_def corner2_def)

lemma dilation_ones2_centre: "generation 1 0 centre3x3 ones2 = Some zeros2"
  unfolding zeros2_def by (rule generation_table) (simp_all add: scan_eval2 ones2_def)

lemma erosion_zeros2_centre: "generation 0 1 centre3x3 zeros2 = Some ones2"
  unfolding ones2_def by (rule generation_table) (simp_all add: scan_eval2 zeros2_def)

lemma dilation_corner2_topleft: "generation 1 0 topleft3x3 corner2 = Some ones2"
  unfolding ones2_def by (rule generation_table) (simp_all add: scan_eval2 corner2_def)

text \<open>
  C2.  The code at the failing input: with the 3x3 kernel whose only active cell is the
  centre, one Dilate iteration turns the all-foreground 2x2 raster into the
  all-background raster, and one Erode iteration turns the all-background 2x2 raster
  into the all-foreground raster.  Neither is the identity.
\<close>

theorem C2_identity_kernel_not_identity_at_border:
  "dilate ones2 stale2 1 centre3x3 cb s = Some (zeros2, (cb ^^ 2) s) \<and>
   erode zeros2 stale2 1 centre3x3 cb s = Some (ones2, (cb ^^ 2) s) \<and>
   zeros2 \<noteq> ones2"
proof (intro conjI)
  show "dilate ones2 stale2 1 centre3x3 cb s = Some (zeros2, (cb ^^ 2) s)"
    using dilate_generations [OF wf_planes2(1,4,5), of 1 centre3x3 cb s]
    by (simp add: dilation_ones2_centre heights2)
  show "erode zeros2 stale2 1 centre3x3 cb s = Some (ones2, (cb ^^ 2) s)"
    using erode_generations [OF wf_planes2(2,4,6), of 1 centre3x3 cb s]
    by (simp add: erosion_zeros2_centre heights2)
  show "zeros2 \<noteq> ones2"
    by (simp add: zeros2_def ones2_def)
qed

text \<open>
  C1.  The code at the failing input.  On the 2x2 raster whose only foreground pixel is
  (0,0), with the kernel whose only active flag is flat index 0, the scans of pixel (0,0)
  and of pixel (1,1) both stop right after kernel index 0: at (1,1) flag 0 is applied to the
  neighbour at offset (-1,-1), at (0,0), where that neighbour is out of bounds, to the
  neighbour at offset (0,0).  On the all-foreground 2x2 raster with the centre-only kernel
  the scan of pixel (0,0) ends after four flags and never reads flag 4.  One Dilate
  iteration of the first input gives the all-foreground raster.
\<close>

theorem C1_flag_offset_mapping_shifts_at_border:
  "ky_loop 1 topleft3x3 corner2 0 0 1 [- 1 .. 1] 0 = Some (True, 1) \<and>
   ky_loop 1 topleft3x3 corner2 1 1 1 [- 1 .. 1] 0 = Some (True, 1) \<and>
   ky_loop 1 centre3x3 ones2 0 0 1 [- 1 .. 1] 0 = Some (False, 4) \<and>
   dilate corner2 stale2 1 topleft3x3 cb s = Some (ones2, (cb ^^ 2) s)"
proof (intro conjI)
  show "ky_loop 1 topleft3x3 corner2 0 0 1 [- 1 .. 1] 0 = Some (True, 1)"
    by (simp add: scan_eval2 corner2_def)
  show "ky_loop 1 topleft3x3 corner2 1 1 1 [- 1 .. 1] 0 = Some (True, 1)"
    by (simp add: scan_eval2 corner2_def)
  show "ky_loop 1 centre3x3 ones2 0 0 1 [- 1 .. 1] 0 = Some (False, 4)"
    by (simp add: scan_eval2 ones2_def)
  show "dilate corner2 stale2 1 topleft3x3 cb s = Some (ones2, (cb ^^ 2) s)"
    using dilate_generations [OF wf_planes2(3,4,7), of 1 topleft3x3 cb s]
    by (simp add: dilation_corner2_topleft heights2)
qed

section \<open>Every scan of a fitting kernel returns\<close>

lemma pixel_value_total:
  assumes "wf_plane src" "window_fits ker"
  shows "\<exists>v. pixel_value T F ker src x y = Some v"
proof -
  let ?off = "kernelOffset ker"
  have off: "0 \<le> ?off" by (simp add: kernelOffset_def)
  have len: "length [- ?off .. ?off] = nat (2 * ?off + 1)" using off by simp
  have "0 + length [- ?off .. ?off] * nat (2 * ?off + 1) \<le> length ker"
    using assms(2) unfolding len window_fits_def by simp
  from ky_loop_total [OF assms(1) off this, of T x y]
  obtain r where "ky_loop T ker src x y ?off [- ?off .. ?off] 0 = Some r" by blast
  then show ?thesis by (cases r) (simp add: pixel_value_def Let_def)
qed

lemma generation_total:
  assumes "wf_plane src" "window_fits ker"
  shows "\<exists>G. generation T F ker src = Some G"
  using pixel_value_total [OF assms, of T F] by (simp add: generation_def)

lemma generations_total:
  "wf_plane src \<Longrightarrow> window_fits ker \<Longrightarrow> \<exists>G. generations T F ker n src = Some G"
proof (induction n arbitrary: src)
  case 0
  show ?case by simp
next
  case (Suc n)
  from generation_total [OF Suc.prems, of T F] obtain G where
    g: "generation T F ker src = Some G" ..
  have "wf_plane G" using generation_dims [OF g] by simp
  from Suc.IH [OF this Suc.prems(2)] show ?case using g by simp
qed

section \<open>Opening and closing twice\<close>

lemma pixel_value_active:
  assumes "wf_plane src" "window_fits ker" "all_active ker"
  shows "pixel_value T F ker src x y = Some (if hit src (kernelOffset ker) T x y then T else F)"
proof -
  let ?off = "kernelOffset ker"
  have off: "0 \<le> ?off" by (simp add: kernelOffset_def)
  have len: "length [- ?off .. ?off] = nat (2 * ?off + 1)" using off by simp
  have "0 + length [- ?off .. ?off] * nat (2 * ?off + 1) \<le> length ker"
    using assms(2) unfolding len window_fits_def by simp
  from ky_loop_total [OF assms(1) off this, of T x y]
  obtain r where r: "ky_loop T ker src x y ?off [- ?off .. ?off] 0 = Some r" by blast
  obtain c i' where ci: "r = (c, i')" by (cases r)
  have "c \<longleftrightarrow> hit src ?off T x y"
  proof
    assume c
    then have "ky_loop T ker src x y ?off [- ?off .. ?off] 0 = Some (True, i')"
      using r ci by simp
    from ky_loop_sound [OF this] show "hit src ?off T x y"
      unfolding hit_def .
  next
    assume "hit src ?off T x y"
    then obtain ky kx where k: "ky \<in> set [- ?off .. ?off]" "kx \<in> set [- ?off .. ?off]"
      "inb src (x + kx) (y + ky)" "p_read src (x + kx) (y + ky) = Some T"
      unfolding hit_def by blast
    from r ci have "ky_loop T ker src x y ?off [- ?off .. ?off] 0 = Some (c, i')" by simp
    from ky_loop_complete [OF this assms(3) k] show c .
  qed
  then show ?thesis using r ci by (simp add: pixel_value_def Let_def)
qed

lemma inb_nat:
  assumes "inb P x y"
  obtains a b where "x = int a" "y = int b" "a < width P" "b < height P"
proof -
  have "x = int (nat x)" "y = int (nat y)" "nat x < width P" "nat y < height P"
    using assms by (auto simp: inb_def)
  then show ?thesis using that by blast
qed

lemma generation_read:
  assumes "generation T F ker X = Some G" "inb X x y"
  shows "p_read G x y = pixel_value T F ker X x y"
proof -
  from inb_nat [OF assms(2)] obtain a b where
    ab: "x = int a" "y = int b" "a < width X" "b < height X" by blast
  let ?w = "width X" and ?h = "height X"
  let ?f = "\<lambda>j. the (pixel_value T F ker X (int (j mod ?w)) (int (j div ?w)))"
  have ok: "\<forall>y < ?h. \<forall>x < ?w. pixel_value T F ker X (int x) (int y) \<noteq> None"
    using assms(1) by (simp add: generation_def split: if_splits)
  have G: "G = \<lparr>width = ?w, height = ?h, pixels = map ?f [0 ..< ?w * ?h]\<rparr>"
    using assms(1) by (simp add: generation_def split: if_splits)
  have "b * ?w + a < b * ?w + ?w" using ab by simp
  also have "\<dots> = Suc b * ?w" by simp
  also have "\<dots> \<le> ?h * ?w" using ab by (intro mult_le_mono1) simp
  finally have j: "b * ?w + a < ?w * ?h" by (simp add: mult.commute)
  have "p_read G x y = Some (?f (b * ?w + a))"
    using j unfolding G ab by (simp add: p_read_def Let_def nat_add_distrib nat_mult_distrib)
  also have "\<dots> = Some (the (pixel_value T F ker X (int a) (int b)))"
    using ab by simp
  also have "\<dots> = pixel_value T F ker X (int a) (int b)"
    using ok ab by auto
  finally show ?thesis unfolding ab .
qed

lemma generation_cong:
  assumes "width A = width B" "height A = height B"
    and "\<And>x y. x < width A \<Longrightarrow> y < height A \<Longrightarrow>
           pixel_value T F ker A (int x) (int y) = pixel_value T F ker B (int x) (int y)"
  shows "generation T F ker A = generation T F ker B"
proof -
  let ?w = "width A" and ?h = "height A"
  have c: "(\<forall>y < ?h. \<forall>x < ?w. pixel_value T F ker A (int x) (int y) \<noteq> None) \<longleftrightarrow>
           (\<forall>y < ?h. \<forall>x < ?w. pixel_value T F ker B (int x) (int y) \<noteq> None)"
    using assms(3) by simp
  have m: "map (\<lambda>j. the (pixel_value T F ker A (int (j mod ?w)) (int (j div ?w)))) [0 ..< ?w * ?h] =
           map (\<lambda>j. the (pixel_value T F ker B (int (j mod ?w)) (int (j div ?w)))) [0 ..< ?w * ?h]"
  proof (rule map_cong [OF refl])
    fix j assume "j \<in> set [0 ..< ?w * ?h]"
    then have j: "j < ?w * ?h" by simp
    then have "0 < ?w" by (cases "?w") auto
    then have "j mod ?w < ?w" by simp
    moreover have "j div ?w < ?h"
      using j by (simp add: less_mult_imp_div_less mult.commute)
    ultimately show "the (pixel_value T F ker A (int (j mod ?w)) (int (j div ?w))) =
                     the (pixel_value T F ker B (int (j mod ?w)) (int (j div ?w)))"
      using assms(3) by simp
  qed
  show ?thesis
    unfolding generation_def assms(1,2) [symmetric] c m ..
qed

lemma hitI:
  "- off \<le> ky \<Longrightarrow> ky \<le> off \<Longrightarrow> - off \<le> kx \<Longrightarrow> kx \<le> off \<Longrightarrow>
   inb P (x + kx) (y + ky) \<Longrightarrow> p_read P (x + kx) (y + ky) = Some T \<Longrightarrow> hit P off T x y"
  unfolding hit_def by (intro bexI [of _ ky] bexI [of _ kx] conjI) simp_all

lemma hitE:
  assumes "hit P off T x y"
  obtains ky kx where "- off \<le> ky" "ky \<le> off" "- off \<le> kx" "kx \<le> off"
    "inb P (x + kx) (y + ky)" "p_read P (x + kx) (y + ky) = Some T"
  using assms unfolding hit_def by auto

lemma hit_back:
  assumes "- off \<le> ky" "ky \<le> off" "- off \<le> kx" "kx \<le> off"
    and "inb P x y" "p_read P x y = Some T"
  shows "hit P off T (x + kx) (y + ky)"
proof (rule hitI [of off "- ky" "- kx"])
  show "- off \<le> - ky" "- ky \<le> off" "- off \<le> - kx" "- kx \<le> off" using assms(1-4) by simp_all
  show "inb P (x + kx + - kx) (y + ky + - ky)" using assms(5) by simp
  show "p_read P (x + kx + - kx) (y + ky + - ky) = Some T" using assms(6) by simp
qed

lemma generation_read_active:
  assumes "wf_plane Z" "window_fits ker" "all_active ker"
    and "generation T F ker Z = Some D" "inb Z x y"
  shows "p_read D x y = Some (if hit Z (kernelOffset ker) T x y then T else F)"
  using generation_read [OF assms(4,5)] pixel_value_active [OF assms(1,2,3)] by simp

lemma dilation_erosion_dilation:
  assumes wf: "wf_plane Z" and fits: "window_fits ker" and act: "all_active ker"
    and gD: "generation 1 0 ker Z = Some D"
    and gW: "generation 0 1 ker D = Some W"
  shows "generation 1 0 ker W = Some D"
proof -
  let ?off = "kernelOffset ker"
  note dD = generation_dims [OF gD]
  note dW = generation_dims [OF gW]
  have wfD: "wf_plane D" and wfW: "wf_plane W" using dD dW by simp_all
  have iD: "inb D x y = inb Z x y" for x y using dD by (simp add: inb_def)
  have iW: "inb W x y = inb Z x y" for x y using dD dW by (simp add: inb_def)
  have RD: "p_read D x y = Some (if hit Z ?off 1 x y then 1 else 0)" if "inb Z x y" for x y
    using generation_read_active [OF wf fits act gD that] .
  have RW: "p_read W x y = Some (if hit D ?off 0 x y then 0 else 1)" if "inb Z x y" for x y
    using generation_read_active [OF wfD fits act gW] that iD by simp
  have key: "hit W ?off 1 x y \<longleftrightarrow> hit Z ?off 1 x y" if p: "inb Z x y" for x y
  proof
    assume "hit W ?off 1 x y"
    then obtain ky kx where k: "- ?off \<le> ky" "ky \<le> ?off" "- ?off \<le> kx" "kx \<le> ?off"
      and q: "inb W (x + kx) (y + ky)" and r: "p_read W (x + kx) (y + ky) = Some 1"
      by (rule hitE)
    have qZ: "inb Z (x + kx) (y + ky)" using q iW by simp
    have nh: "\<not> hit D ?off 0 (x + kx) (y + ky)"
      using RW [OF qZ] r by (auto split: if_splits)
    have "p_read D x y \<noteq> Some 0"
    proof
      assume "p_read D x y = Some 0"
      moreover have "inb D x y" using p iD by simp
      ultimately have "hit D ?off 0 (x + kx) (y + ky)"
        using k by (intro hit_back)
      with nh show False ..
    qed
    with RD [OF p] show "hit Z ?off 1 x y" by (auto split: if_splits)
  next
    assume "hit Z ?off 1 x y"
    then obtain ky kx where k: "- ?off \<le> ky" "ky \<le> ?off" "- ?off \<le> kx" "kx \<le> ?off"
      and q: "inb Z (x + kx) (y + ky)" and r: "p_read Z (x + kx) (y + ky) = Some 1"
      by (rule hitE)
    have "\<not> hit D ?off 0 (x + kx) (y + ky)"
    proof
      assume "hit D ?off 0 (x + kx) (y + ky)"
      then obtain ky' kx' where k': "- ?off \<le> ky'" "ky' \<le> ?off" "- ?off \<le> kx'" "kx' \<le> ?off"
        and q': "inb D (x + kx + kx') (y + ky + ky')"
        and r': "p_read D (x + kx + kx') (y + ky + ky') = Some 0"
        by (rule hitE)
      have qZ': "inb Z (x + kx + kx') (y + ky + ky')" using q' iD by simp
      have "\<not> hit Z ?off 1 (x + kx + kx') (y + ky + ky')"
        using RD [OF qZ'] r' by (auto split: if_splits)
      moreover have "hit Z ?off 1 (x + kx + kx') (y + ky + ky')"
        using k' q r by (intro hit_back)
      ultimately show False ..
    qed
    then have "p_read W (x + kx) (y + ky) = Some 1"
      using RW [OF q] by simp
    moreover have "inb W (x + kx) (y + ky)" using q iW by simp
    ultimately show "hit W ?off 1 x y"
      using k by (intro hitI)
  qed
  have "generation 1 0 ker W = generation 1 0 ker Z"
  proof (rule generation_cong)
    show "width W = width Z" "height W = height Z" using dD dW by simp_all
  next
    fix x y assume "x < width W" "y < height W"
    then have i: "inb Z (int x) (int y)" using dD dW by (simp add: inb_def)
    show "pixel_value 1 0 ker W (int x) (int y) = pixel_value 1 0 ker Z (int x) (int y)"
      unfolding pixel_value_active [OF wfW fits act] pixel_value_active [OF wf fits act]
      using key [OF i] by simp
  qed
  then show ?thesis using gD by simp
qed

lemma window_fits_odd_square:
  assumes "length ker = (2 * r + 1) * (2 * r + 1)"
  shows "window_fits ker"
proof -
  have "kernelOffset ker = int r" using assms by (rule kernelOffset_odd_square)
  moreover have "nat (2 * int r + 1) = 2 * r + 1" by (simp add: nat_add_distrib nat_mult_distrib)
  ultimately show ?thesis using assms by (simp add: window_fits_def)
qed


lemma generations_once: "generations T F ker (Suc 0) X = generation T F ker X"
  by (simp split: option.splits)

lemma open_once:
  assumes "wf_plane X" "wf_plane dst" "same_dims X dst"
  shows "open_morph X dst 1 ker cb s =
           (case generation 0 1 ker X of
              None \<Rightarrow> None
            | Some M \<Rightarrow> map_option (\<lambda>g. (g, (cb ^^ (2 * height X)) s)) (generation 1 0 ker M))"
proof -
  have n: "nat 1 = Suc 0" and m: "Suc 0 * height X = height X" by simp_all
  show ?thesis
    unfolding open_morph_generations [OF assms] n generations_once m ..
qed

lemma close_once:
  assumes "wf_plane X" "wf_plane dst" "same_dims X dst"
  shows "close_morph X dst 1 ker cb s =
           (case generation 1 0 ker X of
              None \<Rightarrow> None
            | Some M \<Rightarrow> map_option (\<lambda>g. (g, (cb ^^ (2 * height X)) s)) (generation 0 1 ker M))"
proof -
  have n: "nat 1 = Suc 0" and m: "Suc 0 * height X = height X" by simp_all
  show ?thesis
    unfolding close_morph_generations [OF assms] n generations_once m ..
qed

lemma opening_idempotent:
  assumes wf: "wf_plane X" "wf_plane dst" "same_dims X dst"
    and act: "all_active ker" and fits: "window_fits ker"
  shows "\<exists>Y. open_morph X dst 1 ker cb s = Some (Y, (cb ^^ (2 * height X)) s) \<and>
             open_morph Y dst 1 ker cb s' = Some (Y, (cb ^^ (2 * height X)) s')"
proof -
  from generation_total [OF wf(1) fits, of 0 1]
  obtain E where gE: "generation 0 1 ker X = Some E" ..
  note dE = generation_dims [OF gE]
  have wE: "wf_plane E" using dE by simp
  from generation_total [OF wE fits, of 1 0]
  obtain D where gD: "generation 1 0 ker E = Some D" ..
  note dD = generation_dims [OF gD]
  have wD: "wf_plane D" using dD by simp
  from generation_total [OF wD fits, of 0 1]
  obtain W where gW: "generation 0 1 ker D = Some W" ..
  have gB: "generation 1 0 ker W = Some D"
    using wE fits act gD gW by (rule dilation_erosion_dilation)
  have sd: "same_dims D dst" using wf(3) dD dE by (simp add: same_dims_def)
  have hD: "height D = height X" using dD dE by simp
  have "open_morph X dst 1 ker cb s = Some (D, (cb ^^ (2 * height X)) s)"
    unfolding open_once [OF wf] by (simp add: gE gD)
  moreover have "open_morph D dst 1 ker cb s' = Some (D, (cb ^^ (2 * height X)) s')"
    unfolding open_once [OF wD wf(2) sd] by (simp add: gW gB hD)
  ultimately show ?thesis by (intro exI [of _ D] conjI)
qed

lemma closing_idempotent:
  assumes wf: "wf_plane X" "wf_plane dst" "same_dims X dst"
    and act: "all_active ker" and fits: "window_fits ker"
  shows "\<exists>Y. close_morph X dst 1 ker cb s = Some (Y, (cb ^^ (2 * height X)) s) \<and>
             close_morph Y dst 1 ker cb s' = Some (Y, (cb ^^ (2 * height X)) s')"
proof -
  from generation_total [OF wf(1) fits, of 1 0]
  obtain D where gD: "generation 1 0 ker X = Some D" ..
  note dD = generation_dims [OF gD]
  have wD: "wf_plane D" using dD by simp
  from generation_total [OF wD fits, of 0 1]
  obtain C where gC: "generation 0 1 ker D = Some C" ..
  note dC = generation_dims [OF gC]
  have wC: "wf_plane C" using dC by simp
  have gB: "generation 1 0 ker C = Some D"
    using wf(1) fits act gD gC by (rule dilation_erosion_dilation)
  have sd: "same_dims C dst" using wf(3) dD dC by (simp add: same_dims_def)
  have hC: "height C = height X" using dD dC by simp
  have "close_morph X dst 1 ker cb s = Some (C, (cb ^^ (2 * height X)) s)"
    unfolding close_once [OF wf] by (simp add: gD gC)
  moreover have "close_morph C dst 1 ker cb s' = Some (C, (cb ^^ (2 * height X)) s')"
    unfolding close_once [OF wC wf(2) sd] by (simp add: gB gC hC)
  ultimately show ?thesis by (intro exI [of _ C] conjI)
qed

text \<open>
  C4, as amended.  For every well-formed plane and every all-active structuring element
  whose length is an odd square, with one iteration: Opening returns a plane on which
  Opening returns that same plane, and Closing returns a plane on which Closing returns
  that same plane.
\<close>

theorem C4_idempotent_for_all_active_kernels:
  assumes "wf_plane X" "wf_plane dst" "same_dims X dst"
    and "all_active ker" and "length ker = (2 * r + 1) * (2 * r + 1)"
  shows "(\<exists>Y. open_morph X dst 1 ker cb s = Some (Y, (cb ^^ (2 * height X)) s) \<and>
              open_morph Y dst 1 ker cb s' = Some (Y, (cb ^^ (2 * height X)) s')) \<and>
         (\<exists>Y. close_morph X dst 1 ker cb s = Some (Y, (cb ^^ (2 * height X)) s) \<and>
              close_morph Y dst 1 ker cb s' = Some (Y, (cb ^^ (2 * height X)) s'))"
  using opening_idempotent [OF assms(1-4) window_fits_odd_square [OF assms(5)], of cb s s']
        closing_idempotent [OF assms(1-4) window_fits_odd_square [OF assms(5)], of cb s s']
  by (rule conjI)


lemma upt_9: "[0 ..< 9] = [0, 1, 2, 3, 4, 5, 6, 7, 8::nat]"
  by (simp add: upt_rec)

lemmas scan_eval3 =
  pixel_value_def kernelOffset_9 upto_m1_1 p_read_def Let_def upt_9 right3x3_def
  replicate_unfold

lemma erosion_spot3: "generation 0 1 right3x3 spot3 = Some eroded3"
  unfolding eroded3_def by (rule generation_table) (simp_all add: scan_eval3 spot3_def)

lemma dilation_eroded3: "generation 1 0 right3x3 eroded3 = Some opened3"
  unfolding opened3_def by (rule generation_table) (simp_all add: scan_eval3 eroded3_def)

lemma erosion_opened3: "generation 0 1 right3x3 opened3 = Some holes3"
  unfolding holes3_def by (rule generation_table) (simp_all add: scan_eval3 opened3_def)

lemma dilation_holes3: "generation 1 0 right3x3 holes3 = Some reopened3"
  unfolding reopened3_def by (rule generation_table) (simp_all add: scan_eval3 holes3_def)

lemma dilation_zeros3: "generation 1 0 right3x3 zeros3 = Some zeros3"
  unfolding zeros3_def by (rule generation_table) (simp_all add: scan_eval3)

lemma erosion_zeros3: "generation 0 1 right3x3 zeros3 = Some closed3"
  unfolding closed3_def by (rule generation_table) (simp_all add: scan_eval3 zeros3_def)

lemma dilation_closed3: "generation 1 0 right3x3 closed3 = Some reopened3"
  unfolding reopened3_def by (rule generation_table) (simp_all add: scan_eval3 closed3_def)

lemma erosion_reopened3: "generation 0 1 right3x3 reopened3 = Some holes3"
  unfolding holes3_def by (rule generation_table) (simp_all add: scan_eval3 reopened3_def)

lemma wf_planes3:
  "wf_plane spot3" "wf_plane zeros3" "wf_plane opened3" "wf_plane closed3" "wf_plane stale3"
  "same_dims spot3 stale3" "same_dims zeros3 stale3" "same_dims opened3 stale3"
  "same_dims closed3 stale3"
  by (simp_all add: wf_plane_def same_dims_def spot3_def zeros3_def opened3_def closed3_def
        stale3_def)

lemma heights3:
  "height spot3 = 3" "height zeros3 = 3" "height opened3 = 3" "height closed3 = 3"
  by (simp_all add: spot3_def zeros3_def opened3_def closed3_def)

text \<open>
  C4 as stated fails.  With the kernel whose only active cell is the right neighbour
  and one iteration, Opening the 3x3 raster with the single foreground pixel (2,2) and
  Opening the result give two different planes, and Closing the all-background 3x3
  raster and Closing the result give two different planes.
\<close>

theorem C4_counterexample:
  "open_morph spot3 stale3 1 right3x3 Suc (0::nat) = Some (opened3, 6) \<and>
   open_morph opened3 stale3 1 right3x3 Suc (0::nat) = Some (reopened3, 6) \<and>
   reopened3 \<noteq> opened3 \<and>
   close_morph zeros3 stale3 1 right3x3 Suc (0::nat) = Some (closed3, 6) \<and>
   close_morph closed3 stale3 1 right3x3 Suc (0::nat) = Some (holes3, 6) \<and>
   holes3 \<noteq> closed3"
proof (intro conjI)
  show "open_morph spot3 stale3 1 right3x3 Suc (0::nat) = Some (opened3, 6)"
    unfolding open_once [OF wf_planes3(1,5,6)]
    by (simp add: erosion_spot3 dilation_eroded3 heights3)
  show "open_morph opened3 stale3 1 right3x3 Suc (0::nat) = Some (reopened3, 6)"
    unfolding open_once [OF wf_planes3(3,5,8)]
    by (simp add: erosion_opened3 dilation_holes3 heights3)
  show "reopened3 \<noteq> opened3"
    by (simp add: reopened3_def opened3_def)
  show "close_morph zeros3 stale3 1 right3x3 Suc (0::nat) = Some (closed3, 6)"
    unfolding close_once [OF wf_planes3(2,5,7)]
    by (simp add: dilation_zeros3 erosion_zeros3 heights3)
  show "close_morph closed3 stale3 1 right3x3 Suc (0::nat) = Some (holes3, 6)"
    unfolding close_once [OF wf_planes3(4,5,9)]
    by (simp add: dilation_closed3 erosion_reopened3 heights3)
  show "holes3 \<noteq> closed3"
    by (simp add: holes3_def closed3_def)
qed

lemma erosion_block5: "generation 0 1 kernel3x3 block5 = Some speck5"
  unfolding speck5_def by (rule generation_table) (simp_all add: scan_eval block5_def)

lemma open_speck5: "open_morph speck5 stale5 1 kernel3x3 Suc (0::nat) = Some (blank5, 10)"
proof -
  have h: "height speck5 = 5" by (simp add: speck5_def)
  show ?thesis
    unfolding open_once [OF wf_planes5]
    by (simp add: erosion_speck5 dilation_blank5 h)
qed

lemma close_speck5: "close_morph speck5 stale5 1 kernel3x3 Suc (0::nat) = Some (speck5, 10)"
proof -
  have h: "height speck5 = 5" by (simp add: speck5_def)
  show ?thesis
    unfolding close_once [OF wf_planes5]
    by (simp add: dilation_speck5 erosion_block5 h)
qed

lemma kernel3x3_active: "all_active kernel3x3" "length kernel3x3 = (2 * 1 + 1) * (2 * 1 + 1)"
  by (simp_all add: all_active_def kernel3x3_def)

theorem C4_idempotent_for_all_active_kernels_witness:
  "wf_plane speck5 \<and> wf_plane stale5 \<and> same_dims speck5 stale5 \<and> all_active kernel3x3 \<and>
   length kernel3x3 = (2 * 1 + 1) * (2 * 1 + 1) \<and>
   open_morph speck5 stale5 1 kernel3x3 Suc (0::nat) = Some (blank5, 10) \<and>
   open_morph blank5 stale5 1 kernel3x3 Suc (0::nat) = Some (blank5, 10) \<and>
   close_morph speck5 stale5 1 kernel3x3 Suc (0::nat) = Some (speck5, 10)"
proof -
  have h: "height speck5 = 5" by (simp add: speck5_def)
  from C4_idempotent_for_all_active_kernels [OF wf_planes5 kernel3x3_active, of Suc "0::nat" "0::nat"]
  obtain Y where y: "open_morph speck5 stale5 1 kernel3x3 Suc (0::nat) = Some (Y, (Suc ^^ (2 * height speck5)) 0)"
    "open_morph Y stale5 1 kernel3x3 Suc (0::nat) = Some (Y, (Suc ^^ (2 * height speck5)) 0)"
    by blast
  have "Y = blank5" using y(1) open_speck5 by simp
  then have "open_morph blank5 stale5 1 kernel3x3 Suc (0::nat) = Some (blank5, 10)"
    using y(2) h by simp
  then show ?thesis
    using wf_planes5 kernel3x3_active open_speck5 close_speck5 by simp
qed

section \<open>The source plane of the operators\<close>

text \<open>
  The loops on references compute what the loops on values compute, written to the
  destination object, when source and destination are distinct live objects.
\<close>

lemma x_loop_ref_value:
  assumes "a \<noteq> b" "a < length hp" "b < length hp"
  shows "x_loop_ref T F ker a b y xs hp =
           map_option (\<lambda>d. hp[b := d]) (x_loop T F ker (hp ! a) (hp ! b) y xs)"
  using assms(2,3)
proof (induction xs arbitrary: hp)
  case Nil
  show ?case by simp
next
  case (Cons x xs)
  show ?case
  proof (cases "pixel_value T F ker (hp ! a) (int x) (int y)")
    case None
    then show ?thesis by simp
  next
    case (Some v)
    show ?thesis
    proof (cases "p_write (hp ! b) (int x) (int y) v")
      case None
      then show ?thesis using Some by simp
    next
      case d: (Some d1)
      let ?hp1 = "hp[b := d1]"
      have l: "a < length ?hp1" "b < length ?hp1" using Cons.prems by simp_all
      have r: "?hp1 ! a = hp ! a" "?hp1 ! b = d1"
        using assms(1) Cons.prems by simp_all
      have "x_loop_ref T F ker a b y (x # xs) hp = x_loop_ref T F ker a b y xs ?hp1"
        using Some d by simp
      also have "\<dots> = map_option (\<lambda>d. ?hp1[b := d]) (x_loop T F ker (hp ! a) d1 y xs)"
        using Cons.IH [OF l] r by simp
      also have "\<dots> = map_option (\<lambda>d. hp[b := d]) (x_loop T F ker (hp ! a) d1 y xs)"
        by simp
      also have "\<dots> = map_option (\<lambda>d. hp[b := d]) (x_loop T F ker (hp ! a) (hp ! b) y (x # xs))"
        using Some d by simp
      finally show ?thesis .
    qed
  qed
qed

lemma y_loop_ref_value:
  assumes "a \<noteq> b" "a < length hp" "b < length hp"
  shows "y_loop_ref T F ker cb a b ys hp s =
           map_option (\<lambda>(d, s'). (hp[b := d], s')) (y_loop T F ker cb (hp ! a) (hp ! b) ys s)"
  using assms(2,3)
proof (induction ys arbitrary: hp s)
  case Nil
  show ?case using Nil by simp
next
  case (Cons y ys)
  note x = x_loop_ref_value [OF assms(1) Cons.prems, of T F ker y "[0 ..< width (hp ! a)]"]
  show ?case
  proof (cases "x_loop T F ker (hp ! a) (hp ! b) y [0 ..< width (hp ! a)]")
    case None
    then show ?thesis using x by simp
  next
    case (Some d1)
    let ?hp1 = "hp[b := d1]"
    have l: "a < length ?hp1" "b < length ?hp1" using Cons.prems by simp_all
    have r: "?hp1 ! a = hp ! a" "?hp1 ! b = d1"
      using assms(1) Cons.prems by simp_all
    have "y_loop_ref T F ker cb a b (y # ys) hp s = y_loop_ref T F ker cb a b ys ?hp1 (cb s)"
      using x Some by simp
    also have "\<dots> = map_option (\<lambda>(d, s'). (?hp1[b := d], s'))
                        (y_loop T F ker cb (hp ! a) d1 ys (cb s))"
      using Cons.IH [OF l] r by simp
    also have "\<dots> = map_option (\<lambda>(d, s'). (hp[b := d], s'))
                        (y_loop T F ker cb (hp ! a) d1 ys (cb s))"
      by simp
    also have "\<dots> = map_option (\<lambda>(d, s'). (hp[b := d], s'))
                        (y_loop T F ker cb (hp ! a) (hp ! b) (y # ys) s)"
      using Some by simp
    finally show ?thesis .
  qed
qed

lemma iteration_loop_ref_value:
  assumes "a \<noteq> b" "a < length hp" "b < length hp"
  shows "iteration_loop_ref T F ker cb a b n hp s =
           map_option (\<lambda>(A, B, s'). (hp[a := A, b := B], s'))
             (iteration_loop T F ker cb n (hp ! a) (hp ! b) s)"
  using assms(2,3)
proof (induction n arbitrary: hp s)
  case 0
  then show ?case by (simp add: list_update_same_conv)
next
  case (Suc n)
  note y = y_loop_ref_value [OF assms(1) Suc.prems, of T F ker cb "[0 ..< height (hp ! a)]" s]
  show ?case
  proof (cases "y_loop T F ker cb (hp ! a) (hp ! b) [0 ..< height (hp ! a)] s")
    case None
    then show ?thesis using y by simp
  next
    case (Some r)
    obtain d1 s1 where r: "r = (d1, s1)" by (cases r)
    let ?hp1 = "swap_objects a b (hp[b := d1])"
    have e: "?hp1 = hp[a := d1, b := hp ! a]"
      using assms(1) Suc.prems by (simp add: swap_objects_def list_update_swap)
    have l: "a < length ?hp1" "b < length ?hp1" using Suc.prems by (simp_all add: e)
    have v: "?hp1 ! a = d1" "?hp1 ! b = hp ! a"
      using assms(1) Suc.prems by (simp_all add: e)
    have "iteration_loop_ref T F ker cb a b (Suc n) hp s =
          iteration_loop_ref T F ker cb a b n ?hp1 s1"
      using y Some r by simp
    also have "\<dots> = map_option (\<lambda>(A, B, s'). (?hp1[a := A, b := B], s'))
                        (iteration_loop T F ker cb n d1 (hp ! a) s1)"
      using Suc.IH [OF l] v by simp
    also have "\<dots> = map_option (\<lambda>(A, B, s'). (hp[a := A, b := B], s'))
                        (iteration_loop T F ker cb n d1 (hp ! a) s1)"
      using assms(1) by (simp add: e list_update_swap)
    also have "\<dots> = map_option (\<lambda>(A, B, s'). (hp[a := A, b := B], s'))
                        (iteration_loop T F ker cb (Suc n) (hp ! a) (hp ! b) s)"
      using Some r by simp
    finally show ?thesis .
  qed
qed

lemma applyMorphology_ref_value:
  assumes "a \<noteq> b" "a < length hp" "b < length hp"
  shows "applyMorphology_ref T F a b iterations ker cb hp s =
           map_option (\<lambda>(A, B, s'). (hp[a := A, b := B], s'))
             (applyMorphology T F (hp ! a) (hp ! b) iterations ker cb s)"
proof (cases "iteration_loop T F ker cb (nat iterations) (hp ! a) (hp ! b) s")
  case None
  then show ?thesis
    using iteration_loop_ref_value [OF assms, of T F ker cb "nat iterations" s] assms(2,3)
    by (simp add: applyMorphology_ref_def applyMorphology_def)
next
  case (Some r)
  obtain A B s' where r: "r = (A, B, s')" by (cases r)
  have "swap_objects a b (hp[a := A, b := B]) = hp[a := B, b := A]"
    using assms by (simp add: swap_objects_def list_update_swap)
  then show ?thesis
    using iteration_loop_ref_value [OF assms, of T F ker cb "nat iterations" s] assms(2,3) Some r
    by (simp add: applyMorphology_ref_def applyMorphology_def)
qed

lemma local_object_end:
  "b < length hp \<Longrightarrow> butlast ((hp @ [A])[b := B]) = hp[b := B]"
  by (simp add: list_update_append)

lemma dilate_ref_value:
  assumes "src_ref < length hp" "dst_ref < length hp"
  shows "dilate_ref src_ref dst_ref iterations ker cb hp s =
           map_option (\<lambda>(D, s'). (hp[dst_ref := D], s'))
             (dilate (hp ! src_ref) (hp ! dst_ref) iterations ker cb s)"
proof -
  let ?hp1 = "hp @ [hp ! src_ref]"
  have n: "length hp \<noteq> dst_ref" "length hp < length ?hp1" "dst_ref < length ?hp1"
    using assms by simp_all
  have v: "?hp1 ! length hp = hp ! src_ref" "?hp1 ! dst_ref = hp ! dst_ref"
    using assms by (simp_all add: nth_append)
  note a = applyMorphology_ref_value [OF n, of 1 0 iterations ker cb s, unfolded v]
  show ?thesis
    using assms a
    by (cases "applyMorphology 1 0 (hp ! src_ref) (hp ! dst_ref) iterations ker cb s")
       (auto simp: dilate_ref_def dilate_def Let_def local_object_end)
qed

lemma erode_ref_value:
  assumes "src_ref < length hp" "dst_ref < length hp"
  shows "erode_ref src_ref dst_ref iterations ker cb hp s =
           map_option (\<lambda>(D, s'). (hp[dst_ref := D], s'))
             (erode (hp ! src_ref) (hp ! dst_ref) iterations ker cb s)"
proof -
  let ?hp1 = "hp @ [hp ! src_ref]"
  have n: "length hp \<noteq> dst_ref" "length hp < length ?hp1" "dst_ref < length ?hp1"
    using assms by simp_all
  have v: "?hp1 ! length hp = hp ! src_ref" "?hp1 ! dst_ref = hp ! dst_ref"
    using assms by (simp_all add: nth_append)
  note a = applyMorphology_ref_value [OF n, of 0 1 iterations ker cb s, unfolded v]
  show ?thesis
    using assms a
    by (cases "applyMorphology 0 1 (hp ! src_ref) (hp ! dst_ref) iterations ker cb s")
       (auto simp: erode_ref_def erode_def Let_def local_object_end)
qed

lemma swapped_local:
  assumes "b < length hp"
  shows "swap_objects (length hp) b ((hp @ [P])[b := D]) = hp[b := P] @ [D]"
proof -
  have "(hp @ [P])[b := D] = hp[b := D] @ [P]"
    using assms by (simp add: list_update_append)
  then show ?thesis
    using assms by (simp add: swap_objects_def list_update_append nth_append)
qed

lemma open_ref_value:
  assumes "src_ref < length hp" "dst_ref < length hp"
  shows "open_ref src_ref dst_ref iterations ker cb hp s =
           map_option (\<lambda>(D, s'). (hp[dst_ref := D], s'))
             (open_morph (hp ! src_ref) (hp ! dst_ref) iterations ker cb s)"
proof -
  let ?src = "hp ! src_ref"
  let ?hp1 = "hp @ [?src]"
  have l: "length hp < length ?hp1" "dst_ref < length ?hp1" using assms by simp_all
  have v: "?hp1 ! length hp = ?src" "?hp1 ! dst_ref = hp ! dst_ref"
    using assms by (simp_all add: nth_append)
  note e = erode_ref_value [OF l, of iterations ker cb s, unfolded v]
  show ?thesis
  proof (cases "erode ?src (hp ! dst_ref) iterations ker cb s")
    case None
    then show ?thesis using assms e by (simp add: open_ref_def open_morph_def Let_def)
  next
    case (Some r)
    obtain D1 s1 where r: "r = (D1, s1)" by (cases r)
    let ?hp3 = "hp[dst_ref := ?src] @ [D1]"
    have sw: "swap_objects (length hp) dst_ref (?hp1[dst_ref := D1]) = ?hp3"
      using assms(2) by (rule swapped_local)
    have l3: "length hp < length ?hp3" "dst_ref < length ?hp3" using assms by simp_all
    have v3: "?hp3 ! length hp = D1" "?hp3 ! dst_ref = ?src"
      using assms by (simp_all add: nth_append)
    have len: "length hp = length (hp[dst_ref := ?src])" by simp
    note d = dilate_ref_value [OF l3, of iterations ker cb s1, unfolded v3]
    have fin: "butlast (?hp3[dst_ref := D]) = hp[dst_ref := D]" for D
      using assms(2) by (simp add: list_update_append)
    have "open_ref src_ref dst_ref iterations ker cb hp s =
          (case dilate_ref (length hp) dst_ref iterations ker cb ?hp3 s1 of
             None \<Rightarrow> None | Some (hp3, s2) \<Rightarrow> Some (butlast hp3, s2))"
      using assms e Some r sw by (simp add: open_ref_def Let_def)
    also have "\<dots> = map_option (\<lambda>(D, s'). (hp[dst_ref := D], s'))
                        (dilate D1 ?src iterations ker cb s1)"
      unfolding d using fin
      by (cases "dilate D1 ?src iterations ker cb s1") auto
    also have "\<dots> = map_option (\<lambda>(D, s'). (hp[dst_ref := D], s'))
                        (open_morph ?src (hp ! dst_ref) iterations ker cb s)"
      using Some r by (simp add: open_morph_def Let_def)
    finally show ?thesis .
  qed
qed

lemma close_ref_value:
  assumes "src_ref < length hp" "dst_ref < length hp"
  shows "close_ref src_ref dst_ref iterations ker cb hp s =
           map_option (\<lambda>(D, s'). (hp[dst_ref := D], s'))
             (close_morph (hp ! src_ref) (hp ! dst_ref) iterations ker cb s)"
proof -
  let ?src = "hp ! src_ref"
  let ?hp1 = "hp @ [?src]"
  have l: "length hp < length ?hp1" "dst_ref < length ?hp1" using assms by simp_all
  have v: "?hp1 ! length hp = ?src" "?hp1 ! dst_ref = hp ! dst_ref"
    using assms by (simp_all add: nth_append)
  note e = dilate_ref_value [OF l, of iterations ker cb s, unfolded v]
  show ?thesis
  proof (cases "dilate ?src (hp ! dst_ref) iterations ker cb s")
    case None
    then show ?thesis using assms e by (simp add: close_ref_def close_morph_def Let_def)
  next
    case (Some r)
    obtain D1 s1 where r: "r = (D1, s1)" by (cases r)
    let ?hp3 = "hp[dst_ref := ?src] @ [D1]"
    have sw: "swap_objects (length hp) dst_ref (?hp1[dst_ref := D1]) = ?hp3"
      using assms(2) by (rule swapped_local)
    have l3: "length hp < length ?hp3" "dst_ref < length ?hp3" using assms by simp_all
    have v3: "?hp3 ! length hp = D1" "?hp3 ! dst_ref = ?src"
      using assms by (simp_all add: nth_append)
    note d = erode_ref_value [OF l3, of iterations ker cb s1, unfolded v3]
    have fin: "butlast (?hp3[dst_ref := D]) = hp[dst_ref := D]" for D
      using assms(2) by (simp add: list_update_append)
    have "close_ref src_ref dst_ref iterations ker cb hp s =
          (case erode_ref (length hp) dst_ref iterations ker cb ?hp3 s1 of
             None \<Rightarrow> None | Some (hp3, s2) \<Rightarrow> Some (butlast hp3, s2))"
      using assms e Some r sw by (simp add: close_ref_def Let_def)
    also have "\<dots> = map_option (\<lambda>(D, s'). (hp[dst_ref := D], s'))
                        (erode D1 ?src iterations ker cb s1)"
      unfolding d using fin
      by (cases "erode D1 ?src iterations ker cb s1") auto
    also have "\<dots> = map_option (\<lambda>(D, s'). (hp[dst_ref := D], s'))
                        (close_morph ?src (hp ! dst_ref) iterations ker cb s)"
      using Some r by (simp add: close_morph_def Let_def)
    finally show ?thesis .
  qed
qed

lemma operator_frame:
  assumes "res = map_option (\<lambda>(D, s'). (hp[dst_ref := D], s')) r"
    and "res = Some (hp', s')"
    and "src_ref \<noteq> dst_ref"
  shows "hp' ! src_ref = hp ! src_ref \<and> hp' = hp[dst_ref := hp' ! dst_ref]"
proof -
  obtain D where h: "hp' = hp[dst_ref := D]"
    using assms(1,2) by (cases r) auto
  show ?thesis
  proof (cases "dst_ref < length hp")
    case True
    then show ?thesis using h assms(3) by simp
  next
    case False
    then show ?thesis using h assms(3) by (simp add: list_update_beyond)
  qed
qed

lemma valid_references:
  assumes "dilate_ref src_ref dst_ref iterations ker cb hp s = Some r
         \<or> erode_ref src_ref dst_ref iterations ker cb hp s = Some r
         \<or> open_ref src_ref dst_ref iterations ker cb hp s = Some r
         \<or> close_ref src_ref dst_ref iterations ker cb hp s = Some r"
  shows "src_ref < length hp \<and> dst_ref < length hp"
  using assms
  by (auto simp: dilate_ref_def erode_ref_def open_ref_def close_ref_def split: if_splits)

text \<open>
  C9.  Each of the four operators, called with a source reference and a distinct
  destination reference, leaves the object of the source reference as it was when it
  returns, and every other object of the caller except the destination as well: the
  heap after the call is the heap before it with the destination object replaced.  The
  operator works on its local copy \<open>input\<close>, which is gone on return.
\<close>

theorem C9_source_plane_unchanged:
  assumes "src_ref \<noteq> dst_ref"
    and "operator = dilate_ref \<or> operator = erode_ref \<or> operator = open_ref \<or>
         operator = close_ref"
    and "operator src_ref dst_ref iterations ker cb hp s = Some (hp', s')"
  shows "hp' ! src_ref = hp ! src_ref \<and> hp' = hp[dst_ref := hp' ! dst_ref]"
proof -
  consider (d) "operator = dilate_ref" | (e) "operator = erode_ref"
    | (o) "operator = open_ref" | (c) "operator = close_ref"
    using assms(2) by blast
  then show ?thesis
  proof cases
    case d
    have r: "dilate_ref src_ref dst_ref iterations ker cb hp s = Some (hp', s')"
      using assms(3) d by simp
    then have v: "src_ref < length hp" "dst_ref < length hp"
      using valid_references [of src_ref dst_ref iterations ker cb hp s "(hp', s')"] by simp_all
    show ?thesis
      using dilate_ref_value [OF v, of iterations ker cb s] r assms(1) by (rule operator_frame)
  next
    case e
    have r: "erode_ref src_ref dst_ref iterations ker cb hp s = Some (hp', s')"
      using assms(3) e by simp
    then have v: "src_ref < length hp" "dst_ref < length hp"
      using valid_references [of src_ref dst_ref iterations ker cb hp s "(hp', s')"] by simp_all
    show ?thesis
      using erode_ref_value [OF v, of iterations ker cb s] r assms(1) by (rule operator_frame)
  next
    case o
    have r: "open_ref src_ref dst_ref iterations ker cb hp s = Some (hp', s')"
      using assms(3) o by simp
    then have v: "src_ref < length hp" "dst_ref < length hp"
      using valid_references [of src_ref dst_ref iterations ker cb hp s "(hp', s')"] by simp_all
    show ?thesis
      using open_ref_value [OF v, of iterations ker cb s] r assms(1) by (rule operator_frame)
  next
    case c
    have r: "close_ref src_ref dst_ref iterations ker cb hp s = Some (hp', s')"
      using assms(3) c by simp
    then have v: "src_ref < length hp" "dst_ref < length hp"
      using valid_references [of src_ref dst_ref iterations ker cb hp s "(hp', s')"] by simp_all
    show ?thesis
      using close_ref_value [OF v, of iterations ker cb s] r assms(1) by (rule operator_frame)
  qed
qed

lemma dilate_ref_heap5:
  "dilate_ref 0 1 1 kernel3x3 Suc heap5 (0::nat) = Some ([speck5, block5], 5)"
  using dilate_ref_value [of 0 heap5 1 1 kernel3x3 Suc "0::nat"]
  by (simp add: heap5_def dilate_speck5_stale5)

text \<open>
  The copy is what protects the source: \<open>applyMorphology\<close> itself, called on the caller's
  two objects with two iterations, leaves the first generation in the source object.
\<close>

lemma applyMorphology_ref_overwrites_source:
  "applyMorphology_ref 1 0 0 1 2 kernel3x3 Suc heap5 (0::nat) = Some ([block5, full5], 10)"
proof -
  have h: "height speck5 = 5" "height block5 = 5" by (simp_all add: speck5_def block5_def)
  have w: "same_dims block5 speck5" by (simp add: same_dims_def speck5_def block5_def)
  have y1: "y_loop 1 0 kernel3x3 Suc speck5 stale5 [0 ..< height speck5] (0::nat) = Some (block5, 5)"
    using y_loop_generation [OF wf_planes5(2,3), of 1 0 kernel3x3 Suc "0::nat"]
    by (simp add: dilation_speck5 h)
  have y2: "y_loop 1 0 kernel3x3 Suc block5 speck5 [0 ..< height block5] (5::nat) = Some (full5, 10)"
    using y_loop_generation [OF wf_planes5(1) w, of 1 0 kernel3x3 Suc "5::nat"]
    by (simp add: dilation_block5 h)
  have n: "nat 2 = Suc (Suc 0)" by simp
  have a: "applyMorphology 1 0 speck5 stale5 2 kernel3x3 Suc (0::nat) = Some (block5, full5, 10)"
    unfolding applyMorphology_def n by (simp add: y1 y2)
  show ?thesis
    using applyMorphology_ref_value [of 0 1 heap5 1 0 2 kernel3x3 Suc "0::nat"]
    by (simp add: heap5_def a)
qed

theorem C9_source_plane_unchanged_witness:
  "(0::nat) \<noteq> 1 \<and>
   dilate_ref 0 1 1 kernel3x3 Suc heap5 (0::nat) = Some ([speck5, block5], 5) \<and>
   [speck5, block5] ! 0 = heap5 ! 0 \<and>
   [speck5, block5] = heap5[1 := [speck5, block5] ! 1]"
proof -
  have d: "(0::nat) \<noteq> 1" by simp
  have o: "dilate_ref = dilate_ref \<or> dilate_ref = erode_ref \<or> dilate_ref = open_ref \<or>
           dilate_ref = close_ref" by simp
  show ?thesis
    using C9_source_plane_unchanged [where operator = dilate_ref, OF d o dilate_ref_heap5]
      d dilate_ref_heap5
    by (simp add: heap5_def)
qed

section \<open>The absent validation\<close>

lemma wf_blank_plane: "wf_plane (blank_plane w h)"
  by (simp add: wf_plane_def blank_plane_def)

lemma same_dims_blank_plane: "same_dims img (blank_plane (width img) (height img))"
  by (simp add: same_dims_def blank_plane_def)

lemma no_iteration:
  assumes "N \<le> 0"
  shows "dilate src dst N ker cb s = Some (src, s)"
    and "erode src dst N ker cb s = Some (src, s)"
    and "open_morph src dst N ker cb s = Some (src, s)"
    and "close_morph src dst N ker cb s = Some (src, s)"
  using assms
  by (simp_all add: dilate_def erode_def open_morph_def close_morph_def applyMorphology_def)

lemma processInputData_no_iteration:
  assumes "prop_iterations < 1"
    and "prop_operation = 0 \<or> prop_operation = 1 \<or> prop_operation = 2 \<or> prop_operation = 3"
    and "int_range (int (height img) * prop_iterations)"
    and "int_range (int (height img) * prop_iterations * 2)"
  shows "processInputData new_plane fraction img prop_kernel prop_iterations prop_operation st =
         Some (True, st\<lparr>m_result := Some img, m_kernel := prop_kernel,
                          m_iterations := prop_iterations, m_operation := prop_operation\<rparr>)"
proof -
  have n: "prop_iterations \<le> 0" using assms(1) by simp
  show ?thesis
    using assms(2,3,4)
    by (auto simp: processInputData_def Let_def no_iteration [OF n])
qed

lemma processInputData_other_operation:
  assumes "prop_operation \<noteq> 0" "prop_operation \<noteq> 1" "prop_operation \<noteq> 2" "prop_operation \<noteq> 3"
    and "int_range (int (height img) * prop_iterations)"
  shows "processInputData new_plane fraction img prop_kernel prop_iterations prop_operation st =
         Some (True, st\<lparr>m_result := Some (new_plane (width img) (height img)),
                          m_kernel := prop_kernel, m_iterations := prop_iterations,
                          m_operation := prop_operation\<rparr>)"
  using assms by (simp add: processInputData_def Let_def)

text \<open>Where \<open>processInputData\<close> returns, it returns \<open>true\<close> and has stored a result plane.\<close>

lemma processInputData_true:
  assumes "processInputData new_plane fraction img prop_kernel prop_iterations prop_operation st =
           Some (r, st')"
  shows "r \<and> m_result st' \<noteq> None"
  using assms
  by (auto simp: processInputData_def Let_def split: if_splits option.splits)

text \<open>The four operators return for every well-formed source and every fitting kernel.\<close>

lemma operators_return:
  assumes "wf_plane src" "wf_plane dst" "same_dims src dst" "window_fits ker"
  shows "\<exists>r. dilate src dst iterations ker cb s = Some r"
    and "\<exists>r. erode src dst iterations ker cb s = Some r"
    and "\<exists>r. open_morph src dst iterations ker cb s = Some r"
    and "\<exists>r. close_morph src dst iterations ker cb s = Some r"
proof -
  obtain D where d: "generations 1 0 ker (nat iterations) src = Some D"
    using generations_total [OF assms(1,4)] by blast
  obtain E where e: "generations 0 1 ker (nat iterations) src = Some E"
    using generations_total [OF assms(1,4)] by blast
  have "wf_plane D" using generations_dims [OF d assms(1)] by simp
  then obtain DE where de: "generations 0 1 ker (nat iterations) D = Some DE"
    using generations_total [OF _ assms(4)] by blast
  have "wf_plane E" using generations_dims [OF e assms(1)] by simp
  then obtain ED where ed: "generations 1 0 ker (nat iterations) E = Some ED"
    using generations_total [OF _ assms(4)] by blast
  show "\<exists>r. dilate src dst iterations ker cb s = Some r"
    by (simp add: dilate_generations [OF assms(1-3)] d)
  show "\<exists>r. erode src dst iterations ker cb s = Some r"
    by (simp add: erode_generations [OF assms(1-3)] e)
  show "\<exists>r. open_morph src dst iterations ker cb s = Some r"
    by (simp add: open_morph_generations [OF assms(1-3)] e ed)
  show "\<exists>r. close_morph src dst iterations ker cb s = Some r"
    by (simp add: close_morph_generations [OF assms(1-3)] d de)
qed

lemma processInputData_returns:
  assumes wf: "wf_plane img"
    and nw: "wf_plane (new_plane (width img) (height img))"
            "same_dims img (new_plane (width img) (height img))"
    and fits: "window_fits (map (\<lambda>i. i > 0) prop_kernel)"
    and op: "prop_operation = 0 \<or> prop_operation = 1 \<or> prop_operation = 2 \<or> prop_operation = 3"
    and rng: "int_range (int (height img) * prop_iterations)"
    and rng2: "prop_operation = 2 \<or> prop_operation = 3 \<longrightarrow>
               int_range (int (height img) * prop_iterations * 2)"
  shows "map_option fst
           (processInputData new_plane fraction img prop_kernel prop_iterations prop_operation st) =
         Some True"
proof -
  define ker where "ker = map (\<lambda>i. i > 0) prop_kernel"
  define res where "res = new_plane (width img) (height img)"
  define lines where "lines = int (height img) * prop_iterations"
  note r = operators_return [OF wf nw [folded res_def] fits [folded ker_def]]
  consider (d) "prop_operation = 0" | (e) "prop_operation = 1"
    | (o) "prop_operation = 2" | (c) "prop_operation = 3" using op by blast
  then show ?thesis
  proof cases
    case d
    obtain G q where "dilate img res prop_iterations ker (updateProgress fraction lines)
                         (0, sink st) = Some (G, q)"
      using r(1) [of prop_iterations "updateProgress fraction lines" "(0, sink st)"] by auto
    then show ?thesis
      using d rng
      by (cases q) (simp add: processInputData_def Let_def ker_def res_def lines_def)
  next
    case e
    obtain G q where "erode img res prop_iterations ker (updateProgress fraction lines)
                         (0, sink st) = Some (G, q)"
      using r(2) [of prop_iterations "updateProgress fraction lines" "(0, sink st)"] by auto
    then show ?thesis
      using e rng
      by (cases q) (simp add: processInputData_def Let_def ker_def res_def lines_def)
  next
    case o
    obtain G q where "open_morph img res prop_iterations ker (updateProgress fraction (lines * 2))
                         (0, sink st) = Some (G, q)"
      using r(3) [of prop_iterations "updateProgress fraction (lines * 2)" "(0, sink st)"] by auto
    then show ?thesis
      using o rng rng2
      by (cases q) (simp add: processInputData_def Let_def ker_def res_def lines_def)
  next
    case c
    obtain G q where "close_morph img res prop_iterations ker (updateProgress fraction (lines * 2))
                         (0, sink st) = Some (G, q)"
      using r(4) [of prop_iterations "updateProgress fraction (lines * 2)" "(0, sink st)"] by auto
    then show ?thesis
      using c rng rng2
      by (cases q) (simp add: processInputData_def Let_def ker_def res_def lines_def)
  qed
qed

text \<open>
  C8, as amended.  \<open>processInputData\<close> validates nothing and has no error result: whenever
  it returns, it returns \<open>true\<close> and the process holds a result plane.  With an iteration
  count below 1 and one of the four operations, the result plane is a copy of the input
  plane and nothing is reported to the sink.  With an operation selector outside 0..3,
  the result plane is the newly allocated plane and nothing is reported.  With a kernel
  of at most \<open>2\<^sup>2\<^sup>4\<close> flags, of square length or not, the half-width of the window is
  the integer part of the square root of the length, halved; when that window fits, for
  a well-formed input plane and one of the four operations, the invocation returns
  \<open>true\<close>.  In the last three cases the product \<open>height * iterations\<close> and, where the
  code doubles it, twice that are within the range of \<open>int\<close>.
\<close>

theorem C8_no_validation:
  "(processInputData new_plane fraction img prop_kernel prop_iterations prop_operation st =
      Some (r, st') \<longrightarrow> r \<and> m_result st' \<noteq> None) \<and>
   (prop_iterations < 1 \<and>
    (prop_operation = 0 \<or> prop_operation = 1 \<or> prop_operation = 2 \<or> prop_operation = 3) \<and>
    int_range (int (height img) * prop_iterations) \<and>
    int_range (int (height img) * prop_iterations * 2) \<longrightarrow>
    processInputData new_plane fraction img prop_kernel prop_iterations prop_operation st =
      Some (True, st\<lparr>m_result := Some img, m_kernel := prop_kernel,
                       m_iterations := prop_iterations, m_operation := prop_operation\<rparr>)) \<and>
   (prop_operation \<noteq> 0 \<and> prop_operation \<noteq> 1 \<and> prop_operation \<noteq> 2 \<and> prop_operation \<noteq> 3 \<and>
    int_range (int (height img) * prop_iterations) \<longrightarrow>
    processInputData new_plane fraction img prop_kernel prop_iterations prop_operation st =
      Some (True, st\<lparr>m_result := Some (new_plane (width img) (height img)),
                       m_kernel := prop_kernel, m_iterations := prop_iterations,
                       m_operation := prop_operation\<rparr>)) \<and>
   (wf_plane img \<and> wf_plane (new_plane (width img) (height img)) \<and>
    same_dims img (new_plane (width img) (height img)) \<and>
    length prop_kernel \<le> 16777216 \<and>
    window_fits (map (\<lambda>i. i > 0) prop_kernel) \<and>
    (prop_operation = 0 \<or> prop_operation = 1 \<or> prop_operation = 2 \<or> prop_operation = 3) \<and>
    int_range (int (height img) * prop_iterations) \<and>
    (prop_operation = 2 \<or> prop_operation = 3 \<longrightarrow>
       int_range (int (height img) * prop_iterations * 2)) \<longrightarrow>
    kernelOffset (map (\<lambda>i. i > 0) prop_kernel) =
      \<lfloor>sqrt (real (length prop_kernel))\<rfloor> div 2 \<and>
    map_option fst
      (processInputData new_plane fraction img prop_kernel prop_iterations prop_operation st) =
    Some True)"
proof (intro conjI impI)
  assume "processInputData new_plane fraction img prop_kernel prop_iterations prop_operation st =
      Some (r, st')"
  then have t: "r \<and> m_result st' \<noteq> None" by (rule processInputData_true)
  show "r" using t by simp
  show "m_result st' \<noteq> None" using t by simp
next
  assume "prop_iterations < 1 \<and>
    (prop_operation = 0 \<or> prop_operation = 1 \<or> prop_operation = 2 \<or> prop_operation = 3) \<and>
    int_range (int (height img) * prop_iterations) \<and>
    int_range (int (height img) * prop_iterations * 2)"
  then show "processInputData new_plane fraction img prop_kernel prop_iterations prop_operation st =
      Some (True, st\<lparr>m_result := Some img, m_kernel := prop_kernel,
                       m_iterations := prop_iterations, m_operation := prop_operation\<rparr>)"
    by (intro processInputData_no_iteration) simp_all
next
  assume "prop_operation \<noteq> 0 \<and> prop_operation \<noteq> 1 \<and> prop_operation \<noteq> 2 \<and> prop_operation \<noteq> 3 \<and>
    int_range (int (height img) * prop_iterations)"
  then show "processInputData new_plane fraction img prop_kernel prop_iterations prop_operation st =
      Some (True, st\<lparr>m_result := Some (new_plane (width img) (height img)),
                       m_kernel := prop_kernel, m_iterations := prop_iterations,
                       m_operation := prop_operation\<rparr>)"
    by (intro processInputData_other_operation) simp_all
next
  assume a: "wf_plane img \<and> wf_plane (new_plane (width img) (height img)) \<and>
    same_dims img (new_plane (width img) (height img)) \<and>
    length prop_kernel \<le> 16777216 \<and>
    window_fits (map (\<lambda>i. i > 0) prop_kernel) \<and>
    (prop_operation = 0 \<or> prop_operation = 1 \<or> prop_operation = 2 \<or> prop_operation = 3) \<and>
    int_range (int (height img) * prop_iterations) \<and>
    (prop_operation = 2 \<or> prop_operation = 3 \<longrightarrow>
       int_range (int (height img) * prop_iterations * 2))"
  show "kernelOffset (map (\<lambda>i. i > 0) prop_kernel) =
      \<lfloor>sqrt (real (length prop_kernel))\<rfloor> div 2"
    by (simp add: kernelOffset_floor_sqrt)
  show "map_option fst
      (processInputData new_plane fraction img prop_kernel prop_iterations prop_operation st) =
    Some True"
    using a by (intro processInputData_returns) simp_all
qed

lemma isqrt_2: "isqrt 2 = 1"
  by code_simp

lemma kernelOffset_2: "length ker = 2 \<Longrightarrow> kernelOffset ker = 0"
  by (simp add: kernelOffset_def isqrt_2)

lemma window_fits_pair: "window_fits (map (\<lambda>i. i > 0) pair_prop)"
  by (simp add: window_fits_def kernelOffset_2 pair_prop_def)

lemma int_range_small: "int_range 0" "int_range 2" "int_range 4"
  by (simp_all add: int_range_def)

lemma ranges_ones2:
  "int_range (int (height ones2) * 0)" "int_range (int (height ones2) * 0 * 2)"
  "int_range (int (height ones2) * 1)" "int_range (int (height ones2) * 1 * 2)"
  by (simp_all add: heights2 int_range_small)

lemma pair_kernel_returns:
  "map_option fst (processInputData blank_plane exact_fraction ones2 pair_prop 1 0 idle) =
   Some True"
  by (rule processInputData_returns [where new_plane = blank_plane,
        OF wf_planes2(1) wf_blank_plane same_dims_blank_plane window_fits_pair _ ranges_ones2(3)])
     simp_all

text \<open>
  C8 as stated fails: an iteration count of 0, an operation selector of 7, and a kernel
  of length 2 are each accepted, and the invocation returns \<open>true\<close> with a result plane.
\<close>

theorem C8_counterexample:
  "processInputData blank_plane exact_fraction ones2 centre_prop 0 0 idle =
     Some (True, idle\<lparr>m_result := Some ones2, m_kernel := centre_prop,
                      m_iterations := 0, m_operation := 0\<rparr>) \<and>
   processInputData blank_plane exact_fraction ones2 centre_prop 1 7 idle =
     Some (True, idle\<lparr>m_result := Some (blank_plane (width ones2) (height ones2)),
                      m_kernel := centre_prop, m_iterations := 1, m_operation := 7\<rparr>) \<and>
   map_option fst (processInputData blank_plane exact_fraction ones2 pair_prop 1 0 idle) =
     Some True"
proof (intro conjI)
  show "processInputData blank_plane exact_fraction ones2 centre_prop 0 0 idle =
     Some (True, idle\<lparr>m_result := Some ones2, m_kernel := centre_prop,
                      m_iterations := 0, m_operation := 0\<rparr>)"
    by (rule processInputData_no_iteration) (simp_all add: int_range_small)
  show "processInputData blank_plane exact_fraction ones2 centre_prop 1 7 idle =
     Some (True, idle\<lparr>m_result := Some (blank_plane (width ones2) (height ones2)),
                      m_kernel := centre_prop, m_iterations := 1, m_operation := 7\<rparr>)"
    by (rule processInputData_other_operation) (simp_all add: heights2 int_range_small)
  show "map_option fst (processInputData blank_plane exact_fraction ones2 pair_prop 1 0 idle) =
     Some True"
    by (rule pair_kernel_returns)
qed

theorem C8_no_validation_witness:
  "(processInputData blank_plane exact_fraction ones2 centre_prop 0 3 idle =
      Some (True, idle\<lparr>m_result := Some ones2, m_kernel := centre_prop,
                       m_iterations := 0, m_operation := 3\<rparr>) \<and>
    m_result (idle\<lparr>m_result := Some ones2, m_kernel := centre_prop,
                   m_iterations := 0, m_operation := 3\<rparr>) \<noteq> None) \<and>
   ((0::int) < 1 \<and> int_range (int (height ones2) * 0) \<and>
    int_range (int (height ones2) * 0 * 2) \<and>
    processInputData blank_plane exact_fraction ones2 centre_prop 0 3 idle =
      Some (True, idle\<lparr>m_result := Some ones2, m_kernel := centre_prop,
                       m_iterations := 0, m_operation := 3\<rparr>)) \<and>
   ((7::int) \<noteq> 0 \<and> (7::int) \<noteq> 1 \<and> (7::int) \<noteq> 2 \<and> (7::int) \<noteq> 3 \<and>
    int_range (int (height ones2) * 1) \<and>
    processInputData blank_plane exact_fraction ones2 centre_prop 1 7 idle =
      Some (True, idle\<lparr>m_result := Some (blank_plane (width ones2) (height ones2)),
                       m_kernel := centre_prop, m_iterations := 1, m_operation := 7\<rparr>)) \<and>
   (wf_plane ones2 \<and> wf_plane (blank_plane (width ones2) (height ones2)) \<and>
    same_dims ones2 (blank_plane (width ones2) (height ones2)) \<and>
    length pair_prop \<le> 16777216 \<and>
    window_fits (map (\<lambda>i. i > 0) pair_prop) \<and>
    int_range (int (height ones2) * 1) \<and> int_range (int (height ones2) * 1 * 2) \<and>
    kernelOffset (map (\<lambda>i. i > 0) pair_prop) = \<lfloor>sqrt (real (length pair_prop))\<rfloor> div 2 \<and>
    map_option fst (processInputData blank_plane exact_fraction ones2 pair_prop 1 2 idle) =
      Some True)"
proof -
  have p1: "(0::int) < 1 \<and> ((3::int) = 0 \<or> (3::int) = 1 \<or> (3::int) = 2 \<or> (3::int) = 3) \<and>
    int_range (int (height ones2) * 0) \<and> int_range (int (height ones2) * 0 * 2)"
    using ranges_ones2 by simp
  have p2: "(7::int) \<noteq> 0 \<and> (7::int) \<noteq> 1 \<and> (7::int) \<noteq> 2 \<and> (7::int) \<noteq> 3 \<and>
    int_range (int (height ones2) * 1)"
    using ranges_ones2 by simp
  have l: "length pair_prop \<le> 16777216" by (simp add: pair_prop_def)
  have p3: "wf_plane ones2 \<and> wf_plane (blank_plane (width ones2) (height ones2)) \<and>
    same_dims ones2 (blank_plane (width ones2) (height ones2)) \<and>
    length pair_prop \<le> 16777216 \<and>
    window_fits (map (\<lambda>i. i > 0) pair_prop) \<and>
    ((2::int) = 0 \<or> (2::int) = 1 \<or> (2::int) = 2 \<or> (2::int) = 3) \<and>
    int_range (int (height ones2) * 1) \<and>
    ((2::int) = 2 \<or> (2::int) = 3 \<longrightarrow> int_range (int (height ones2) * 1 * 2))"
    using wf_planes2(1) wf_blank_plane same_dims_blank_plane window_fits_pair l ranges_ones2
    by simp
  note t1 = C8_no_validation [where new_plane = blank_plane and img = ones2 and st = idle
            and fraction = exact_fraction
            and prop_kernel = centre_prop and prop_iterations = 0 and prop_operation = 3,
            THEN conjunct2, THEN conjunct1, rule_format, OF p1]
  note t0 = C8_no_validation [where new_plane = blank_plane and img = ones2 and st = idle
            and fraction = exact_fraction
            and prop_kernel = centre_prop and prop_iterations = 0 and prop_operation = 3,
            THEN conjunct1, rule_format, OF t1]
  note t2 = C8_no_validation [where new_plane = blank_plane and img = ones2 and st = idle
            and fraction = exact_fraction
            and prop_kernel = centre_prop and prop_iterations = 1 and prop_operation = 7,
            THEN conjunct2, THEN conjunct2, THEN conjunct1, rule_format, OF p2]
  note t3 = C8_no_validation [where new_plane = blank_plane and img = ones2 and st = idle
            and fraction = exact_fraction
            and prop_kernel = pair_prop and prop_iterations = 1 and prop_operation = 2,
            THEN conjunct2, THEN conjunct2, THEN conjunct2, rule_format, OF p3]
  show ?thesis
    using t0 t1 t2 t3 p1 p2 p3 by blast
qed

end
